theory Spec2Isabelle
  imports Complex_Main
begin

section \<open>The schema of \<open>backend/db/schema.sql\<close>\<close>

text \<open>
  The two tables the retrieval core is built on, \<open>case_opinions\<close> and
  \<open>case_embeddings\<close>, are modelled the way PostgreSQL holds them: a row is a tuple
  of nullable values (\<open>None\<close> is SQL \<open>NULL\<close>), a table is a list of rows, and the
  declared constraints are checks made by the statements that write to the table.
  A statement returns the error it raised, if any, together with the database it
  leaves behind.

  Stand-ins for column types whose values are not inspected here: \<open>DATE\<close> and
  \<open>TIMESTAMPTZ\<close> are integers, \<open>JSONB\<close> is its text, an element of a pgvector
  \<open>vector\<close> is a real number.
\<close>

datatype error =
    not_null_violation string
  | unique_violation string
  | foreign_key_violation string
  | string_data_right_truncation string
  | numeric_value_out_of_range string
  | data_exception string
  | sequence_generator_limit_exceeded string

subsection \<open>Text search built-ins\<close>

text \<open>
  \<open>to_tsvector\<close>, \<open>setweight\<close> and the concatenation operator \<open>||\<close> on
  \<open>tsvector\<close> belong to PostgreSQL, not to this repository: they are parameters of
  the model, and \<open>'v\<close> is the type of a tsvector.
\<close>

record 'v textsearch =
  to_tsvector :: "string \<Rightarrow> string \<Rightarrow> 'v"
  setweight :: "'v \<Rightarrow> char \<Rightarrow> 'v"
  tsconcat :: "'v \<Rightarrow> 'v \<Rightarrow> 'v"

definition COALESCE :: "'a option \<Rightarrow> 'a \<Rightarrow> 'a" where
  "COALESCE v d = (case v of None \<Rightarrow> d | Some x \<Rightarrow> x)"

subsection \<open>Table \<open>case_opinions\<close>\<close>

record 'v case_opinion =
  id_op :: "int option"
  source :: "string option"
  source_id :: "string option"
  case_name :: "string option"
  court :: "string option"
  court_full_name :: "string option"
  date_filed :: "int option"
  docket_number :: "string option"
  citations :: "string option list option"
  case_type :: "string option"
  opinion_type :: "string option"
  opinion_text :: "string option"
  summary :: "string option"
  outcome :: "string option"
  judges :: "string option list option"
  statutes_cited :: "string option list option"
  tags :: "string option list option"
  metadata :: "string option"
  created_at_op :: "int option"
  search_vector :: "'v option"

datatype opinion_column =
    C_id | C_source | C_source_id | C_case_name | C_court | C_court_full_name
  | C_date_filed | C_docket_number | C_citations | C_case_type | C_opinion_type
  | C_opinion_text | C_summary | C_outcome | C_judges | C_statutes_cited | C_tags
  | C_metadata | C_created_at | C_search_vector

subsection \<open>Table \<open>case_embeddings\<close>\<close>

record case_embedding =
  id_emb :: "int option"
  opinion_id :: "int option"
  model :: "string option"
  chunk_index :: "int option"
  chunk_text :: "string option"
  embedding :: "real list option"
  created_at_emb :: "int option"

datatype embedding_column =
    E_id | E_opinion_id | E_model | E_chunk_index | E_chunk_text | E_embedding
  | E_created_at

subsection \<open>The database\<close>

text \<open>
  Each \<open>SERIAL\<close> column owns a sequence; the field holds the value the next
  \<open>nextval\<close> returns.
\<close>

record 'v db =
  case_opinions :: "'v case_opinion list"
  case_embeddings :: "case_embedding list"
  case_opinions_id_seq :: int
  case_embeddings_id_seq :: int

definition empty_db :: "'v db" where
  "empty_db = \<lparr>case_opinions = [], case_embeddings = [],
     case_opinions_id_seq = 1, case_embeddings_id_seq = 1\<rparr>"

subsection \<open>Column types\<close>

text \<open>
  \<open>VARCHAR(n)\<close>: a longer value is an error unless the excess is all spaces, which
  is cut off. \<open>INT\<close> is 32 bits. \<open>vector(1536)\<close> takes 1536 elements only.
\<close>

definition varchar_fits :: "nat \<Rightarrow> string option \<Rightarrow> bool" where
  "varchar_fits n v = (case v of None \<Rightarrow> True
     | Some s \<Rightarrow> length s \<le> n \<or> list_all (\<lambda>c. c = CHR '' '') (drop n s))"

definition varchar :: "nat \<Rightarrow> string option \<Rightarrow> string option" where
  "varchar n v = map_option (take n) v"

definition int4_fits :: "int option \<Rightarrow> bool" where
  "int4_fits v = (case v of None \<Rightarrow> True
     | Some i \<Rightarrow> - 2147483648 \<le> i \<and> i \<le> 2147483647)"

definition vector_fits :: "nat \<Rightarrow> real list option \<Rightarrow> bool" where
  "vector_fits n v = (case v of None \<Rightarrow> True | Some xs \<Rightarrow> length xs = n)"

subsection \<open>The trigger function\<close>

text \<open>
  \<open>update_opinion_search_vector()\<close>, lines 69 to 78: the row \<open>NEW\<close> with its
  \<open>search_vector\<close> assigned.
\<close>

definition update_opinion_search_vector ::
  "'v textsearch \<Rightarrow> 'v case_opinion \<Rightarrow> 'v case_opinion" where
  "update_opinion_search_vector ts NEW = NEW\<lparr>search_vector := Some
     (tsconcat ts
       (tsconcat ts
         (setweight ts (to_tsvector ts ''english'' (COALESCE (case_name NEW) '''')) (CHR ''A''))
         (setweight ts (to_tsvector ts ''english'' (COALESCE (summary NEW) '''')) (CHR ''B'')))
       (setweight ts (to_tsvector ts ''english'' (COALESCE (opinion_text NEW) '''')) (CHR ''C'')))\<rparr>"

text \<open>
  \<open>trg_opinion_search_vector\<close>, lines 81 to 85: the function runs before every
  inserted row, and before an updated row when the \<open>SET\<close> list of the \<open>UPDATE\<close> names
  one of the three columns.
\<close>

definition trg_columns :: "opinion_column set" where
  "trg_columns = {C_case_name, C_summary, C_opinion_text}"

definition trg_opinion_search_vector ::
  "'v textsearch \<Rightarrow> opinion_column set option \<Rightarrow> 'v case_opinion \<Rightarrow> 'v case_opinion" where
  "trg_opinion_search_vector ts event NEW =
     (case event of
        None \<Rightarrow> update_opinion_search_vector ts NEW
      | Some cols \<Rightarrow>
          if cols \<inter> trg_columns \<noteq> {} then update_opinion_search_vector ts NEW else NEW)"

subsection \<open>Statements on \<open>case_opinions\<close>\<close>

text \<open>
  The statements modelled write one row: an \<open>INSERT\<close> of one row of constants, an
  \<open>UPDATE\<close> and a \<open>DELETE\<close> of the row with a given primary key. A statement names
  a set of columns and gives a row holding their values; the values the row holds
  for the other columns are not read.
\<close>

definition assign_opinion ::
  "opinion_column set \<Rightarrow> 'v case_opinion \<Rightarrow> 'v case_opinion \<Rightarrow> 'v case_opinion" where
  "assign_opinion cols r old = \<lparr>
     id_op = (if C_id \<in> cols then id_op r else id_op old),
     source = (if C_source \<in> cols then source r else source old),
     source_id = (if C_source_id \<in> cols then source_id r else source_id old),
     case_name = (if C_case_name \<in> cols then case_name r else case_name old),
     court = (if C_court \<in> cols then court r else court old),
     court_full_name =
       (if C_court_full_name \<in> cols then court_full_name r else court_full_name old),
     date_filed = (if C_date_filed \<in> cols then date_filed r else date_filed old),
     docket_number = (if C_docket_number \<in> cols then docket_number r else docket_number old),
     citations = (if C_citations \<in> cols then citations r else citations old),
     case_type = (if C_case_type \<in> cols then case_type r else case_type old),
     opinion_type = (if C_opinion_type \<in> cols then opinion_type r else opinion_type old),
     opinion_text = (if C_opinion_text \<in> cols then opinion_text r else opinion_text old),
     summary = (if C_summary \<in> cols then summary r else summary old),
     outcome = (if C_outcome \<in> cols then outcome r else outcome old),
     judges = (if C_judges \<in> cols then judges r else judges old),
     statutes_cited =
       (if C_statutes_cited \<in> cols then statutes_cited r else statutes_cited old),
     tags = (if C_tags \<in> cols then tags r else tags old),
     metadata = (if C_metadata \<in> cols then metadata r else metadata old),
     created_at_op = (if C_created_at \<in> cols then created_at_op r else created_at_op old),
     search_vector = (if C_search_vector \<in> cols then search_vector r else search_vector old)\<rparr>"

text \<open>The values a statement gives are converted to the column types first.\<close>

definition opinion_type_error :: "opinion_column set \<Rightarrow> 'v case_opinion \<Rightarrow> error option" where
  "opinion_type_error cols r =
     (if C_id \<in> cols \<and> \<not> int4_fits (id_op r) then Some (numeric_value_out_of_range ''id'')
      else if C_source \<in> cols \<and> \<not> varchar_fits 50 (source r)
        then Some (string_data_right_truncation ''source'')
      else if C_source_id \<in> cols \<and> \<not> varchar_fits 200 (source_id r)
        then Some (string_data_right_truncation ''source_id'')
      else if C_court \<in> cols \<and> \<not> varchar_fits 200 (court r)
        then Some (string_data_right_truncation ''court'')
      else if C_docket_number \<in> cols \<and> \<not> varchar_fits 300 (docket_number r)
        then Some (string_data_right_truncation ''docket_number'')
      else if C_case_type \<in> cols \<and> \<not> varchar_fits 50 (case_type r)
        then Some (string_data_right_truncation ''case_type'')
      else if C_opinion_type \<in> cols \<and> \<not> varchar_fits 50 (opinion_type r)
        then Some (string_data_right_truncation ''opinion_type'')
      else if C_outcome \<in> cols \<and> \<not> varchar_fits 300 (outcome r)
        then Some (string_data_right_truncation ''outcome'')
      else None)"

definition coerce_opinion :: "'v case_opinion \<Rightarrow> 'v case_opinion" where
  "coerce_opinion r = r\<lparr>
     source := varchar 50 (source r),
     source_id := varchar 200 (source_id r),
     court := varchar 200 (court r),
     docket_number := varchar 300 (docket_number r),
     case_type := varchar 50 (case_type r),
     opinion_type := varchar 50 (opinion_type r),
     outcome := varchar 300 (outcome r)\<rparr>"

text \<open>
  The declared constraints, checked on the row as the trigger left it, against the
  other rows of the table: \<open>NOT NULL\<close> in column order, then the primary key and
  \<open>source_id ... UNIQUE\<close>. A unique constraint never fires on \<open>NULL\<close>.
\<close>

definition opinion_constraint_error ::
  "'v case_opinion \<Rightarrow> 'v case_opinion list \<Rightarrow> error option" where
  "opinion_constraint_error NEW others =
     (if id_op NEW = None then Some (not_null_violation ''id'')
      else if source NEW = None then Some (not_null_violation ''source'')
      else if case_name NEW = None then Some (not_null_violation ''case_name'')
      else if court NEW = None then Some (not_null_violation ''court'')
      else if list_ex (\<lambda>p. id_op p = id_op NEW) others
        then Some (unique_violation ''case_opinions_pkey'')
      else if source_id NEW \<noteq> None \<and> list_ex (\<lambda>p. source_id p = source_id NEW) others
        then Some (unique_violation ''case_opinions_source_id_key'')
      else None)"

definition opinion_defaults :: "int \<Rightarrow> int \<Rightarrow> 'v case_opinion" where
  "opinion_defaults nextval now = \<lparr>
     id_op = Some nextval, source = None, source_id = None, case_name = None, court = None,
     court_full_name = None, date_filed = None, docket_number = None, citations = None,
     case_type = None, opinion_type = None, opinion_text = None, summary = None,
     outcome = None, judges = None, statutes_cited = None, tags = None,
     metadata = Some ''{}'', created_at_op = Some now, search_vector = None\<rparr>"

text \<open>
  \<open>INSERT INTO case_opinions (cols) VALUES (r)\<close> at time \<open>now\<close>. A column that is
  not named takes its default. A value taken from the sequence stays taken when the
  statement fails.
\<close>

definition insert_opinion ::
  "'v textsearch \<Rightarrow> int \<Rightarrow> opinion_column set \<Rightarrow> 'v case_opinion \<Rightarrow> 'v db
     \<Rightarrow> error option \<times> 'v db" where
  "insert_opinion ts now cols r db =
     (case opinion_type_error cols r of
        Some e \<Rightarrow> (Some e, db)
      | None \<Rightarrow>
          if C_id \<notin> cols \<and> 2147483647 < case_opinions_id_seq db
          then (Some (sequence_generator_limit_exceeded ''case_opinions_id_seq''), db)
          else
            let db1 = (if C_id \<in> cols then db
                       else db\<lparr>case_opinions_id_seq := case_opinions_id_seq db + 1\<rparr>);
                NEW = trg_opinion_search_vector ts None
                        (assign_opinion cols (coerce_opinion r)
                           (opinion_defaults (case_opinions_id_seq db) now))
            in (case opinion_constraint_error NEW (case_opinions db) of
                  Some e \<Rightarrow> (Some e, db1)
                | None \<Rightarrow> (None, db1\<lparr>case_opinions := case_opinions db @ [NEW]\<rparr>)))"

text \<open>
  \<open>UPDATE case_opinions SET cols = r WHERE id = k\<close>. The foreign key of
  \<open>case_embeddings\<close> has no \<open>ON UPDATE\<close> action: the id of an opinion that has
  embeddings cannot change.
\<close>

definition update_opinion ::
  "'v textsearch \<Rightarrow> int \<Rightarrow> opinion_column set \<Rightarrow> 'v case_opinion \<Rightarrow> 'v db
     \<Rightarrow> error option \<times> 'v db" where
  "update_opinion ts k cols r db =
     (case opinion_type_error cols r of
        Some e \<Rightarrow> (Some e, db)
      | None \<Rightarrow>
          (case find (\<lambda>p. id_op p = Some k) (case_opinions db) of
             None \<Rightarrow> (None, db)
           | Some OLD \<Rightarrow>
               let NEW = trg_opinion_search_vector ts (Some cols)
                           (assign_opinion cols (coerce_opinion r) OLD);
                   others = filter (\<lambda>p. id_op p \<noteq> Some k) (case_opinions db)
               in (case opinion_constraint_error NEW others of
                     Some e \<Rightarrow> (Some e, db)
                   | None \<Rightarrow>
                       if id_op NEW \<noteq> Some k
                          \<and> list_ex (\<lambda>e. opinion_id e = Some k) (case_embeddings db)
                       then (Some (foreign_key_violation ''case_embeddings_opinion_id_fkey''), db)
                       else (None, db\<lparr>case_opinions :=
                               map (\<lambda>p. if id_op p = Some k then NEW else p)
                                 (case_opinions db)\<rparr>))))"

text \<open>
  \<open>DELETE FROM case_opinions WHERE id = k\<close>, with \<open>ON DELETE CASCADE\<close> of line 94:
  the embeddings that reference a deleted opinion go with it.
\<close>

definition delete_opinion :: "int \<Rightarrow> 'v db \<Rightarrow> error option \<times> 'v db" where
  "delete_opinion k db =
     (if list_ex (\<lambda>p. id_op p = Some k) (case_opinions db)
      then (None, db\<lparr>
              case_opinions := filter (\<lambda>p. id_op p \<noteq> Some k) (case_opinions db),
              case_embeddings := filter (\<lambda>e. opinion_id e \<noteq> Some k) (case_embeddings db)\<rparr>)
      else (None, db))"

subsection \<open>Statements on \<open>case_embeddings\<close>\<close>

definition assign_embedding ::
  "embedding_column set \<Rightarrow> case_embedding \<Rightarrow> case_embedding \<Rightarrow> case_embedding" where
  "assign_embedding cols r old = \<lparr>
     id_emb = (if E_id \<in> cols then id_emb r else id_emb old),
     opinion_id = (if E_opinion_id \<in> cols then opinion_id r else opinion_id old),
     model = (if E_model \<in> cols then model r else model old),
     chunk_index = (if E_chunk_index \<in> cols then chunk_index r else chunk_index old),
     chunk_text = (if E_chunk_text \<in> cols then chunk_text r else chunk_text old),
     embedding = (if E_embedding \<in> cols then embedding r else embedding old),
     created_at_emb = (if E_created_at \<in> cols then created_at_emb r else created_at_emb old)\<rparr>"

definition embedding_type_error :: "embedding_column set \<Rightarrow> case_embedding \<Rightarrow> error option" where
  "embedding_type_error cols r =
     (if E_id \<in> cols \<and> \<not> int4_fits (id_emb r) then Some (numeric_value_out_of_range ''id'')
      else if E_opinion_id \<in> cols \<and> \<not> int4_fits (opinion_id r)
        then Some (numeric_value_out_of_range ''opinion_id'')
      else if E_model \<in> cols \<and> \<not> varchar_fits 100 (model r)
        then Some (string_data_right_truncation ''model'')
      else if E_chunk_index \<in> cols \<and> \<not> int4_fits (chunk_index r)
        then Some (numeric_value_out_of_range ''chunk_index'')
      else if E_embedding \<in> cols \<and> \<not> vector_fits 1536 (embedding r)
        then Some (data_exception ''embedding'')
      else None)"

definition coerce_embedding :: "case_embedding \<Rightarrow> case_embedding" where
  "coerce_embedding r = r\<lparr>model := varchar 100 (model r)\<rparr>"

text \<open>
  \<open>NOT NULL\<close>, the primary key, \<open>UNIQUE(opinion_id, model, chunk_index)\<close> of line
  101, which never fires on a key with a \<open>NULL\<close> in it, and the foreign key.
\<close>

definition embedding_constraint_error ::
  "case_embedding \<Rightarrow> case_embedding list \<Rightarrow> 'v case_opinion list \<Rightarrow> error option" where
  "embedding_constraint_error NEW others opinions =
     (if id_emb NEW = None then Some (not_null_violation ''id'')
      else if opinion_id NEW = None then Some (not_null_violation ''opinion_id'')
      else if model NEW = None then Some (not_null_violation ''model'')
      else if list_ex (\<lambda>e. id_emb e = id_emb NEW) others
        then Some (unique_violation ''case_embeddings_pkey'')
      else if chunk_index NEW \<noteq> None
              \<and> list_ex (\<lambda>e. opinion_id e = opinion_id NEW \<and> model e = model NEW
                            \<and> chunk_index e = chunk_index NEW) others
        then Some (unique_violation ''case_embeddings_opinion_id_model_chunk_index_key'')
      else if \<not> list_ex (\<lambda>p. id_op p = opinion_id NEW) opinions
        then Some (foreign_key_violation ''case_embeddings_opinion_id_fkey'')
      else None)"

definition embedding_defaults :: "int \<Rightarrow> int \<Rightarrow> case_embedding" where
  "embedding_defaults nextval now = \<lparr>
     id_emb = Some nextval, opinion_id = None, model = None, chunk_index = Some 0,
     chunk_text = None, embedding = None, created_at_emb = Some now\<rparr>"

definition insert_embedding ::
  "int \<Rightarrow> embedding_column set \<Rightarrow> case_embedding \<Rightarrow> 'v db \<Rightarrow> error option \<times> 'v db" where
  "insert_embedding now cols r db =
     (case embedding_type_error cols r of
        Some e \<Rightarrow> (Some e, db)
      | None \<Rightarrow>
          if E_id \<notin> cols \<and> 2147483647 < case_embeddings_id_seq db
          then (Some (sequence_generator_limit_exceeded ''case_embeddings_id_seq''), db)
          else
            let db1 = (if E_id \<in> cols then db
                       else db\<lparr>case_embeddings_id_seq := case_embeddings_id_seq db + 1\<rparr>);
                NEW = assign_embedding cols (coerce_embedding r)
                        (embedding_defaults (case_embeddings_id_seq db) now)
            in (case embedding_constraint_error NEW (case_embeddings db) (case_opinions db) of
                  Some e \<Rightarrow> (Some e, db1)
                | None \<Rightarrow> (None, db1\<lparr>case_embeddings := case_embeddings db @ [NEW]\<rparr>)))"

definition update_embedding ::
  "int \<Rightarrow> embedding_column set \<Rightarrow> case_embedding \<Rightarrow> 'v db \<Rightarrow> error option \<times> 'v db" where
  "update_embedding k cols r db =
     (case embedding_type_error cols r of
        Some e \<Rightarrow> (Some e, db)
      | None \<Rightarrow>
          (case find (\<lambda>e. id_emb e = Some k) (case_embeddings db) of
             None \<Rightarrow> (None, db)
           | Some OLD \<Rightarrow>
               let NEW = assign_embedding cols (coerce_embedding r) OLD;
                   others = filter (\<lambda>e. id_emb e \<noteq> Some k) (case_embeddings db)
               in (case embedding_constraint_error NEW others (case_opinions db) of
                     Some e \<Rightarrow> (Some e, db)
                   | None \<Rightarrow> (None, db\<lparr>case_embeddings :=
                                 map (\<lambda>e. if id_emb e = Some k then NEW else e)
                                   (case_embeddings db)\<rparr>))))"

definition delete_embedding :: "int \<Rightarrow> 'v db \<Rightarrow> error option \<times> 'v db" where
  "delete_embedding k db =
     (None, db\<lparr>case_embeddings := filter (\<lambda>e. id_emb e \<noteq> Some k) (case_embeddings db)\<rparr>)"

subsection \<open>Histories\<close>

text \<open>
  The statements that write to the two tables. A history runs them one after the
  other from a database; a failed statement does not stop the ones after it.
\<close>

datatype 'v stmt =
    INSERT_case_opinions int "opinion_column set" "'v case_opinion"
  | UPDATE_case_opinions int "opinion_column set" "'v case_opinion"
  | DELETE_case_opinions int
  | INSERT_case_embeddings int "embedding_column set" case_embedding
  | UPDATE_case_embeddings int "embedding_column set" case_embedding
  | DELETE_case_embeddings int

fun exec :: "'v textsearch \<Rightarrow> 'v stmt \<Rightarrow> 'v db \<Rightarrow> error option \<times> 'v db" where
  "exec ts (INSERT_case_opinions now cols r) db = insert_opinion ts now cols r db"
| "exec ts (UPDATE_case_opinions k cols r) db = update_opinion ts k cols r db"
| "exec ts (DELETE_case_opinions k) db = delete_opinion k db"
| "exec ts (INSERT_case_embeddings now cols r) db = insert_embedding now cols r db"
| "exec ts (UPDATE_case_embeddings k cols r) db = update_embedding k cols r db"
| "exec ts (DELETE_case_embeddings k) db = delete_embedding k db"

fun run :: "'v textsearch \<Rightarrow> 'v stmt list \<Rightarrow> 'v db \<Rightarrow> 'v db" where
  "run ts [] db = db"
| "run ts (s # ss) db = run ts ss (snd (exec ts s db))"

subsection \<open>The lexical index as the specification words it\<close>

text \<open>
  The specification's derived attribute: the concatenation of the weighted tsvectors
  of case name (weight A), summary (weight B) and opinion text (weight C), where an
  absent field has no text. A row is consistent when its \<open>search_vector\<close> holds
  this value.
\<close>

definition field_text :: "string option \<Rightarrow> string" where
  "field_text v = (case v of None \<Rightarrow> [] | Some s \<Rightarrow> s)"

definition weighted_index :: "'v textsearch \<Rightarrow> 'v case_opinion \<Rightarrow> 'v" where
  "weighted_index ts p =
     tsconcat ts
       (tsconcat ts
         (setweight ts (to_tsvector ts ''english'' (field_text (case_name p))) (CHR ''A''))
         (setweight ts (to_tsvector ts ''english'' (field_text (summary p))) (CHR ''B'')))
       (setweight ts (to_tsvector ts ''english'' (field_text (opinion_text p))) (CHR ''C''))"

definition index_consistent :: "'v textsearch \<Rightarrow> 'v case_opinion \<Rightarrow> bool" where
  "index_consistent ts p = (search_vector p = Some (weighted_index ts p))"

text \<open>
  The one statement that writes \<open>search_vector\<close> without the trigger running: an
  \<open>UPDATE\<close> that names \<open>search_vector\<close> and none of the trigger's columns.
\<close>

fun sets_search_vector_directly :: "'v stmt \<Rightarrow> bool" where
  "sets_search_vector_directly (UPDATE_case_opinions k cols r) =
     (C_search_vector \<in> cols \<and> cols \<inter> trg_columns = {})"
| "sets_search_vector_directly _ = False"

subsection \<open>Invariants of the store\<close>

definition names_present :: "'v case_opinion \<Rightarrow> bool" where
  "names_present p = (case_name p \<noteq> None \<and> court p \<noteq> None)"

definition source_ids_unique :: "'v case_opinion list \<Rightarrow> bool" where
  "source_ids_unique ps =
     (\<forall>p \<in> set ps. \<forall>q \<in> set ps. source_id p \<noteq> None \<and> source_id p = source_id q \<longrightarrow> p = q)"

definition references_resolve :: "'v db \<Rightarrow> bool" where
  "references_resolve db =
     list_all (\<lambda>e. list_ex (\<lambda>p. id_op p = opinion_id e) (case_opinions db))
       (case_embeddings db)"

definition dimension_1536 :: "case_embedding \<Rightarrow> bool" where
  "dimension_1536 e = (case embedding e of None \<Rightarrow> True | Some v \<Rightarrow> length v = 1536)"

subsection \<open>A small instance of the text search built-ins\<close>

text \<open>
  To run the model on concrete rows: a tsvector is the list of the words of the
  text, cut at spaces, each with a weight (\<open>D\<close> until \<open>setweight\<close> changes it).
\<close>

fun split_words :: "string \<Rightarrow> string \<Rightarrow> string list" where
  "split_words w [] = (if w = [] then [] else [w])"
| "split_words w (c # cs) =
     (if c = CHR '' '' then (if w = [] then [] else [w]) @ split_words [] cs
      else split_words (w @ [c]) cs)"

definition words_textsearch :: "(string \<times> char) list textsearch" where
  "words_textsearch = \<lparr>
     to_tsvector = (\<lambda>config text. map (\<lambda>w. (w, CHR ''D'')) (split_words [] text)),
     setweight = (\<lambda>v weight. map (\<lambda>l. (fst l, weight)) v),
     tsconcat = (\<lambda>v1 v2. v1 @ v2)\<rparr>"

definition smith_v_state :: "(string \<times> char) list case_opinion" where
  "smith_v_state = \<lparr>
     id_op = None, source = Some ''courtlistener'', source_id = Some ''123'',
     case_name = Some ''Smith v. State'', court = Some ''texcrimapp'',
     court_full_name = None, date_filed = None, docket_number = None, citations = None,
     case_type = Some ''dwi'', opinion_type = None,
     opinion_text = Some ''field sobriety test'', summary = None,
     outcome = None, judges = None, statutes_cited = None, tags = None,
     metadata = None, created_at_op = None, search_vector = None\<rparr>"

definition smith_columns :: "opinion_column set" where
  "smith_columns =
     {C_source, C_source_id, C_case_name, C_court, C_case_type, C_opinion_text}"

text \<open>The database after \<open>smith_v_state\<close> is inserted into the empty one at time 0.\<close>

definition smith_db :: "(string \<times> char) list db" where
  "smith_db = \<lparr>
     case_opinions = [smith_v_state\<lparr>id_op := Some 1, metadata := Some ''{}'',
       created_at_op := Some 0,
       search_vector := Some [(''Smith'', CHR ''A''), (''v.'', CHR ''A''), (''State'', CHR ''A''),
         (''field'', CHR ''C''), (''sobriety'', CHR ''C''), (''test'', CHR ''C'')]\<rparr>],
     case_embeddings = [],
     case_opinions_id_seq = 2, case_embeddings_id_seq = 1\<rparr>"

text \<open>An embedding of the first chunk of that opinion, and the columns it names.\<close>

definition smith_chunk :: case_embedding where
  "smith_chunk = \<lparr>
     id_emb = None, opinion_id = Some 1, model = Some ''text-embedding-3-small'',
     chunk_index = Some 0, chunk_text = Some ''field sobriety test'',
     embedding = Some (replicate 1536 0), created_at_emb = None\<rparr>"

definition chunk_columns :: "embedding_column set" where
  "chunk_columns = {E_opinion_id, E_model, E_chunk_index, E_chunk_text, E_embedding}"

section \<open>The chat widget of \<open>frontend/src/components/ChatWidget.tsx\<close>\<close>

text \<open>
  A JavaScript string is a list of UTF-16 code units. The state of the component is
  the tuple of its \<open>useState\<close> cells; \<open>'r\<close> is the type of an intake report.
\<close>

type_synonym jsstring = "nat list"

definition js :: "string \<Rightarrow> jsstring" where
  "js s = map of_char s"

datatype role = user | assistant

record message =
  msg_id :: jsstring
  msg_role :: role
  content :: jsstring
  timestamp :: int

record 'r widget =
  messages :: "message list"
  input :: jsstring
  isLoading :: bool
  sessionId :: "jsstring option"
  report :: "'r option"
  showReport :: bool
  caseType :: "jsstring option"
  readyForReport :: bool

record chat_message_response =
  resp_message :: jsstring
  resp_case_type :: "jsstring option"
  resp_ready_for_report :: bool

datatype request =
    POST_start
  | POST_message jsstring jsstring
  | POST_report jsstring

datatype 'a settled = Fulfilled 'a | Rejected

text \<open>\<open>String.prototype.trim\<close> strips white space and line terminators at both ends.\<close>

definition js_whitespace :: "nat \<Rightarrow> bool" where
  "js_whitespace c =
     (c \<in> {9, 10, 11, 12, 13, 32, 160, 5760, 8232, 8233, 8239, 8287, 12288, 65279}
      \<or> (8192 \<le> c \<and> c \<le> 8202))"

definition trim :: "jsstring \<Rightarrow> jsstring" where
  "trim s = rev (dropWhile js_whitespace (rev (dropWhile js_whitespace s)))"

text \<open>\<open>!s\<close> on a value of type \<open>string | null\<close>: \<open>null\<close> and the empty string are falsy.\<close>

definition falsy :: "jsstring option \<Rightarrow> bool" where
  "falsy v = (case v of None \<Rightarrow> True | Some s \<Rightarrow> s = [])"

text \<open>
  \<open>addMessage\<close>, lines 35 to 40; \<open>uuid\<close> is what \<open>crypto.randomUUID()\<close> returns and
  \<open>now\<close> what \<open>Date.now()\<close> returns.
\<close>

definition addMessage :: "jsstring \<Rightarrow> int \<Rightarrow> role \<Rightarrow> jsstring \<Rightarrow> 'r widget \<Rightarrow> 'r widget" where
  "addMessage uuid now r c st = st\<lparr>messages := messages st @
     [\<lparr>msg_id = uuid, msg_role = r, content = c, timestamp = now\<rparr>]\<rparr>"

text \<open>
  \<open>fetchReport\<close>, lines 90 to 105, up to its request, and the handling of the
  response: only an \<open>ok\<close> response that parses sets the report.
\<close>

definition fetchReport :: "'r widget \<Rightarrow> request option" where
  "fetchReport st =
     (if falsy (sessionId st) then None else Some (POST_report (the (sessionId st))))"

definition fetchReport_settled :: "'r option settled \<Rightarrow> 'r widget \<Rightarrow> 'r widget" where
  "fetchReport_settled res st =
     (case res of Fulfilled (Some data) \<Rightarrow> st\<lparr>report := Some data\<rparr> | _ \<Rightarrow> st)"

text \<open>
  \<open>sendMessage\<close>, lines 60 to 88, up to the \<open>await\<close> of its request: the state it
  leaves and the request it issues, if any.
\<close>

definition sendMessage :: "jsstring \<Rightarrow> int \<Rightarrow> 'r widget \<Rightarrow> 'r widget \<times> request option" where
  "sendMessage uuid now st =
     (let text = trim (input st) in
      if text = [] \<or> falsy (sessionId st) \<or> isLoading st then (st, None)
      else
        (addMessage uuid now user text st\<lparr>input := [], isLoading := True\<rparr>,
         Some (POST_message (the (sessionId st)) text)))"

text \<open>
  The rest of \<open>sendMessage\<close>, run when the request settles; \<open>sent\<close> is the state in
  which the request was issued, whose \<open>sessionId\<close> the closure of \<open>fetchReport\<close> holds.
\<close>

definition sendMessage_settled ::
  "jsstring \<Rightarrow> int \<Rightarrow> 'r widget \<Rightarrow> chat_message_response settled \<Rightarrow> 'r widget
     \<Rightarrow> 'r widget \<times> request option" where
  "sendMessage_settled uuid now sent res st =
     (case res of
        Rejected \<Rightarrow>
          ((addMessage uuid now assistant
              (js ''Sorry, something went wrong. Please try again.'') st)\<lparr>isLoading := False\<rparr>,
           None)
      | Fulfilled data \<Rightarrow>
          let st1 = addMessage uuid now assistant (resp_message data) st;
              st2 = (if falsy (resp_case_type data) then st1
                     else st1\<lparr>caseType := resp_case_type data\<rparr>)
          in if resp_ready_for_report data
             then (st2\<lparr>readyForReport := True, isLoading := False\<rparr>, fetchReport sent)
             else (st2\<lparr>isLoading := False\<rparr>, None))"

text \<open>
  \<open>handleKeyDown\<close>, lines 107 to 112, and the \<open>disabled\<close> attribute of the send
  button, line 225.
\<close>

definition handleKeyDown ::
  "jsstring \<Rightarrow> bool \<Rightarrow> jsstring \<Rightarrow> int \<Rightarrow> 'r widget \<Rightarrow> 'r widget \<times> request option" where
  "handleKeyDown key shiftKey uuid now st =
     (if key = js ''Enter'' \<and> \<not> shiftKey then sendMessage uuid now st else (st, None))"

definition send_disabled :: "'r widget \<Rightarrow> bool" where
  "send_disabled st = (isLoading st \<or> trim (input st) = [])"



text \<open>A widget after the greeting, with \<open>hi\<close> typed between two spaces.\<close>

definition draft :: "unit widget" where
  "draft = \<lparr>
     messages = [\<lparr>msg_id = js ''u1'', msg_role = assistant, content = js ''Hello'',
       timestamp = 5\<rparr>],
     input = js '' hi '', isLoading = False, sessionId = Some (js ''s1''), report = None,
     showReport = False, caseType = None, readyForReport = False\<rparr>"

section \<open>Reading the statements\<close>

subsection \<open>What a statement leaves behind\<close>

lemma assign_opinion_sel:
  "id_op (assign_opinion cols r old) = (if C_id \<in> cols then id_op r else id_op old)"
  "source (assign_opinion cols r old) = (if C_source \<in> cols then source r else source old)"
  "source_id (assign_opinion cols r old) =
     (if C_source_id \<in> cols then source_id r else source_id old)"
  "case_name (assign_opinion cols r old) =
     (if C_case_name \<in> cols then case_name r else case_name old)"
  "court (assign_opinion cols r old) = (if C_court \<in> cols then court r else court old)"
  "summary (assign_opinion cols r old) = (if C_summary \<in> cols then summary r else summary old)"
  "opinion_text (assign_opinion cols r old) =
     (if C_opinion_text \<in> cols then opinion_text r else opinion_text old)"
  "search_vector (assign_opinion cols r old) =
     (if C_search_vector \<in> cols then search_vector r else search_vector old)"
  by (simp_all add: assign_opinion_def)

lemma coerce_opinion_sel:
  "id_op (coerce_opinion r) = id_op r"
  "source (coerce_opinion r) = varchar 50 (source r)"
  "source_id (coerce_opinion r) = varchar 200 (source_id r)"
  "case_name (coerce_opinion r) = case_name r"
  "court (coerce_opinion r) = varchar 200 (court r)"
  "summary (coerce_opinion r) = summary r"
  "opinion_text (coerce_opinion r) = opinion_text r"
  "search_vector (coerce_opinion r) = search_vector r"
  by (simp_all add: coerce_opinion_def)

lemma opinion_defaults_sel:
  "id_op (opinion_defaults n now) = Some n"
  "source (opinion_defaults n now) = None"
  "source_id (opinion_defaults n now) = None"
  "case_name (opinion_defaults n now) = None"
  "court (opinion_defaults n now) = None"
  "summary (opinion_defaults n now) = None"
  "opinion_text (opinion_defaults n now) = None"
  "search_vector (opinion_defaults n now) = None"
  by (simp_all add: opinion_defaults_def)

lemma update_opinion_search_vector_sel:
  "id_op (update_opinion_search_vector ts p) = id_op p"
  "source (update_opinion_search_vector ts p) = source p"
  "source_id (update_opinion_search_vector ts p) = source_id p"
  "case_name (update_opinion_search_vector ts p) = case_name p"
  "court (update_opinion_search_vector ts p) = court p"
  "summary (update_opinion_search_vector ts p) = summary p"
  "opinion_text (update_opinion_search_vector ts p) = opinion_text p"
  by (simp_all add: update_opinion_search_vector_def)

lemma trg_opinion_search_vector_sel:
  "id_op (trg_opinion_search_vector ts ev p) = id_op p"
  "source (trg_opinion_search_vector ts ev p) = source p"
  "source_id (trg_opinion_search_vector ts ev p) = source_id p"
  "case_name (trg_opinion_search_vector ts ev p) = case_name p"
  "court (trg_opinion_search_vector ts ev p) = court p"
  "summary (trg_opinion_search_vector ts ev p) = summary p"
  "opinion_text (trg_opinion_search_vector ts ev p) = opinion_text p"
  by (simp_all add: trg_opinion_search_vector_def update_opinion_search_vector_sel
      split: option.splits)

lemma opinion_constraint_error_None:
  "opinion_constraint_error NEW others = None \<longleftrightarrow>
     id_op NEW \<noteq> None \<and> source NEW \<noteq> None \<and> case_name NEW \<noteq> None \<and> court NEW \<noteq> None
     \<and> \<not> list_ex (\<lambda>p. id_op p = id_op NEW) others
     \<and> (source_id NEW \<noteq> None \<longrightarrow> \<not> list_ex (\<lambda>p. source_id p = source_id NEW) others)"
  by (simp add: opinion_constraint_error_def)

lemma find_Some_mem: "find P xs = Some x \<Longrightarrow> x \<in> set xs \<and> P x"
  by (auto simp: find_Some_iff)

lemma insert_opinion_cases:
  assumes "insert_opinion ts now cols r db = (err, db')"
  shows "case_embeddings db' = case_embeddings db"
    and "err \<noteq> None \<Longrightarrow> case_opinions db' = case_opinions db"
    and "err = None \<Longrightarrow>
           opinion_type_error cols r = None
           \<and> opinion_constraint_error
               (trg_opinion_search_vector ts None
                  (assign_opinion cols (coerce_opinion r)
                     (opinion_defaults (case_opinions_id_seq db) now)))
               (case_opinions db) = None
           \<and> case_opinions db' = case_opinions db @
               [trg_opinion_search_vector ts None
                  (assign_opinion cols (coerce_opinion r)
                     (opinion_defaults (case_opinions_id_seq db) now))]"
  using assms
  by (auto simp: insert_opinion_def Let_def split: option.splits if_splits)

lemma update_opinion_cases:
  assumes "update_opinion ts k cols r db = (err, db')"
  shows "case_embeddings db' = case_embeddings db"
    and "err \<noteq> None \<Longrightarrow> case_opinions db' = case_opinions db"
    and "err = None \<Longrightarrow>
           case_opinions db' = case_opinions db
             \<and> \<not> list_ex (\<lambda>p. id_op p = Some k) (case_opinions db)
           \<or> (\<exists>OLD NEW. OLD \<in> set (case_opinions db) \<and> id_op OLD = Some k
                \<and> NEW = trg_opinion_search_vector ts (Some cols)
                          (assign_opinion cols (coerce_opinion r) OLD)
                \<and> opinion_type_error cols r = None
                \<and> opinion_constraint_error NEW
                     (filter (\<lambda>p. id_op p \<noteq> Some k) (case_opinions db)) = None
                \<and> (id_op NEW \<noteq> Some k
                     \<longrightarrow> \<not> list_ex (\<lambda>e. opinion_id e = Some k) (case_embeddings db))
                \<and> case_opinions db' =
                     map (\<lambda>p. if id_op p = Some k then NEW else p) (case_opinions db))"
  using assms
  by (auto simp: update_opinion_def Let_def list_ex_iff find_None_iff
      split: option.splits if_splits dest: find_Some_mem)

lemma delete_opinion_opinions:
  "case_opinions (snd (delete_opinion k db)) = filter (\<lambda>p. id_op p \<noteq> Some k) (case_opinions db)"
  by (auto simp: delete_opinion_def list_ex_iff filter_id_conv)

lemma delete_opinion_cases:
  "fst (delete_opinion k db) = None"
  "list_ex (\<lambda>p. id_op p = Some k) (case_opinions db) \<Longrightarrow>
     case_embeddings (snd (delete_opinion k db))
       = filter (\<lambda>e. opinion_id e \<noteq> Some k) (case_embeddings db)"
  "\<not> list_ex (\<lambda>p. id_op p = Some k) (case_opinions db) \<Longrightarrow>
     case_embeddings (snd (delete_opinion k db)) = case_embeddings db"
  by (simp_all add: delete_opinion_def)

lemma insert_opinion_refused_unchanged:
  assumes "fst (insert_opinion ts now cols r db) \<noteq> None"
  shows "case_opinions (snd (insert_opinion ts now cols r db)) = case_opinions db
     \<and> case_embeddings (snd (insert_opinion ts now cols r db)) = case_embeddings db"
proof -
  obtain err db' where ins: "insert_opinion ts now cols r db = (err, db')"
    by (cases "insert_opinion ts now cols r db")
  with assms have "err \<noteq> None" by simp
  from insert_opinion_cases(1) [OF ins] insert_opinion_cases(2) [OF ins this]
  show ?thesis by (simp add: ins)
qed


lemma assign_embedding_sel:
  "id_emb (assign_embedding cols r old) = (if E_id \<in> cols then id_emb r else id_emb old)"
  "opinion_id (assign_embedding cols r old) =
     (if E_opinion_id \<in> cols then opinion_id r else opinion_id old)"
  "model (assign_embedding cols r old) = (if E_model \<in> cols then model r else model old)"
  "chunk_index (assign_embedding cols r old) =
     (if E_chunk_index \<in> cols then chunk_index r else chunk_index old)"
  "embedding (assign_embedding cols r old) =
     (if E_embedding \<in> cols then embedding r else embedding old)"
  by (simp_all add: assign_embedding_def)

lemma embedding_constraint_error_None:
  "embedding_constraint_error NEW others opinions = None \<longleftrightarrow>
     id_emb NEW \<noteq> None \<and> opinion_id NEW \<noteq> None \<and> model NEW \<noteq> None
     \<and> \<not> list_ex (\<lambda>e. id_emb e = id_emb NEW) others
     \<and> (chunk_index NEW \<noteq> None \<longrightarrow>
          \<not> list_ex (\<lambda>e. opinion_id e = opinion_id NEW \<and> model e = model NEW
                        \<and> chunk_index e = chunk_index NEW) others)
     \<and> list_ex (\<lambda>p. id_op p = opinion_id NEW) opinions"
  by (simp add: embedding_constraint_error_def)

lemma embedding_type_fits:
  "embedding_type_error cols r = None \<Longrightarrow> E_embedding \<in> cols \<Longrightarrow> dimension_1536 r"
  by (auto simp: embedding_type_error_def dimension_1536_def vector_fits_def
      split: if_splits option.splits)

lemma embedding_defaults_dimension: "dimension_1536 (embedding_defaults n now)"
  by (simp add: dimension_1536_def embedding_defaults_def)

lemma assigned_dimension:
  assumes "embedding_type_error cols r = None" and "dimension_1536 old"
  shows "dimension_1536 (assign_embedding cols (coerce_embedding r) old)"
proof (cases "E_embedding \<in> cols")
  case True
  with assms(1) have "dimension_1536 r" by (simp add: embedding_type_fits)
  with True show ?thesis
    by (simp add: dimension_1536_def assign_embedding_sel coerce_embedding_def)
next
  case False
  with assms(2) show ?thesis
    by (simp add: dimension_1536_def assign_embedding_sel)
qed

lemma insert_embedding_cases:
  assumes "insert_embedding now cols r db = (err, db')"
  shows "case_opinions db' = case_opinions db"
    and "err \<noteq> None \<Longrightarrow> case_embeddings db' = case_embeddings db"
    and "err = None \<Longrightarrow>
           embedding_type_error cols r = None
           \<and> embedding_constraint_error
               (assign_embedding cols (coerce_embedding r)
                  (embedding_defaults (case_embeddings_id_seq db) now))
               (case_embeddings db) (case_opinions db) = None
           \<and> case_embeddings db' = case_embeddings db @
               [assign_embedding cols (coerce_embedding r)
                  (embedding_defaults (case_embeddings_id_seq db) now)]"
  using assms
  by (auto simp: insert_embedding_def Let_def split: option.splits if_splits)

lemma update_embedding_cases:
  assumes "update_embedding k cols r db = (err, db')"
  shows "case_opinions db' = case_opinions db"
    and "err \<noteq> None \<Longrightarrow> case_embeddings db' = case_embeddings db"
    and "err = None \<Longrightarrow>
           case_embeddings db' = case_embeddings db
           \<or> (\<exists>OLD NEW. OLD \<in> set (case_embeddings db) \<and> id_emb OLD = Some k
                \<and> NEW = assign_embedding cols (coerce_embedding r) OLD
                \<and> embedding_type_error cols r = None
                \<and> embedding_constraint_error NEW
                     (filter (\<lambda>e. id_emb e \<noteq> Some k) (case_embeddings db))
                     (case_opinions db) = None
                \<and> case_embeddings db' =
                     map (\<lambda>e. if id_emb e = Some k then NEW else e) (case_embeddings db))"
  using assms
  by (auto simp: update_embedding_def Let_def split: option.splits if_splits
      dest: find_Some_mem)

lemma insert_embedding_opinions:
  "case_opinions (snd (insert_embedding now cols r db)) = case_opinions db"
  by (simp add: insert_embedding_def Let_def split: option.splits)

lemma update_embedding_opinions:
  "case_opinions (snd (update_embedding k cols r db)) = case_opinions db"
  by (simp add: update_embedding_def Let_def split: option.splits)

lemma delete_embedding_opinions:
  "case_opinions (snd (delete_embedding k db)) = case_opinions db"
  by (simp add: delete_embedding_def)

text \<open>What a statement does to the two tables, case by case.\<close>

lemma exec_cases:
  fixes db :: "'v db"
  obtains (unchanged)
      "case_opinions (snd (exec ts s db)) = case_opinions db"
      "case_embeddings (snd (exec ts s db)) = case_embeddings db"
  | (opinion_inserted) NEW where
      "case_opinions (snd (exec ts s db)) = case_opinions db @ [NEW]"
      "case_embeddings (snd (exec ts s db)) = case_embeddings db"
      "opinion_constraint_error NEW (case_opinions db) = None"
  | (opinion_updated) k NEW where
      "case_opinions (snd (exec ts s db)) =
         map (\<lambda>p. if id_op p = Some k then NEW else p) (case_opinions db)"
      "case_embeddings (snd (exec ts s db)) = case_embeddings db"
      "opinion_constraint_error NEW (filter (\<lambda>p. id_op p \<noteq> Some k) (case_opinions db)) = None"
      "id_op NEW \<noteq> Some k \<longrightarrow> \<not> list_ex (\<lambda>e. opinion_id e = Some k) (case_embeddings db)"
  | (opinion_deleted) k where
      "case_opinions (snd (exec ts s db)) = filter (\<lambda>p. id_op p \<noteq> Some k) (case_opinions db)"
      "case_embeddings (snd (exec ts s db))
         = filter (\<lambda>e. opinion_id e \<noteq> Some k) (case_embeddings db)"
  | (embedding_inserted) NEW where
      "case_opinions (snd (exec ts s db)) = case_opinions db"
      "case_embeddings (snd (exec ts s db)) = case_embeddings db @ [NEW]"
      "embedding_constraint_error NEW (case_embeddings db) (case_opinions db) = None"
      "dimension_1536 NEW"
  | (embedding_updated) k OLD NEW where
      "case_opinions (snd (exec ts s db)) = case_opinions db"
      "case_embeddings (snd (exec ts s db)) =
         map (\<lambda>e. if id_emb e = Some k then NEW else e) (case_embeddings db)"
      "embedding_constraint_error NEW
         (filter (\<lambda>e. id_emb e \<noteq> Some k) (case_embeddings db)) (case_opinions db) = None"
      "OLD \<in> set (case_embeddings db)" "dimension_1536 OLD \<longrightarrow> dimension_1536 NEW"
  | (embedding_deleted) k where
      "case_opinions (snd (exec ts s db)) = case_opinions db"
      "case_embeddings (snd (exec ts s db)) = filter (\<lambda>e. id_emb e \<noteq> Some k) (case_embeddings db)"
proof (cases s)
  case (INSERT_case_opinions now cols r)
  obtain err db' where ins: "insert_opinion ts now cols r db = (err, db')"
    by (cases "insert_opinion ts now cols r db")
  show ?thesis
  proof (cases err)
    case None
    with insert_opinion_cases(1,3) [OF ins] INSERT_case_opinions ins show ?thesis
      by (intro opinion_inserted [of "trg_opinion_search_vector ts None
            (assign_opinion cols (coerce_opinion r)
               (opinion_defaults (case_opinions_id_seq db) now))"]) simp_all
  next
    case (Some e)
    with insert_opinion_cases(1,2) [OF ins] INSERT_case_opinions ins show ?thesis
      by (intro unchanged) simp_all
  qed
next
  case (UPDATE_case_opinions k cols r)
  obtain err db' where upd: "update_opinion ts k cols r db = (err, db')"
    by (cases "update_opinion ts k cols r db")
  note emb = update_opinion_cases(1) [OF upd]
  show ?thesis
  proof (cases err)
    case (Some e)
    with update_opinion_cases(2) [OF upd] emb UPDATE_case_opinions upd show ?thesis
      by (intro unchanged) simp_all
  next
    case None
    from update_opinion_cases(3) [OF upd None]
    consider "case_opinions db' = case_opinions db"
      | NEW where
          "opinion_constraint_error NEW
             (filter (\<lambda>p. id_op p \<noteq> Some k) (case_opinions db)) = None"
          "id_op NEW \<noteq> Some k \<longrightarrow> \<not> list_ex (\<lambda>e. opinion_id e = Some k) (case_embeddings db)"
          "case_opinions db' = map (\<lambda>p. if id_op p = Some k then NEW else p) (case_opinions db)"
      by blast
    then show ?thesis
    proof cases
      case 1
      with emb UPDATE_case_opinions upd show ?thesis by (intro unchanged) simp_all
    next
      case (2 NEW)
      with emb UPDATE_case_opinions upd show ?thesis
        by (intro opinion_updated [of k NEW]) simp_all
    qed
  qed
next
  case (DELETE_case_opinions k)
  show ?thesis
  proof (cases "list_ex (\<lambda>p. id_op p = Some k) (case_opinions db)")
    case True
    with DELETE_case_opinions show ?thesis
      by (intro opinion_deleted [of k]) (simp_all add: delete_opinion_opinions delete_opinion_cases)
  next
    case False
    with DELETE_case_opinions show ?thesis
      by (intro unchanged) (simp_all add: delete_opinion_def)
  qed
next
  case (INSERT_case_embeddings now cols r)
  obtain err db' where ins: "insert_embedding now cols r db = (err, db')"
    by (cases "insert_embedding now cols r db")
  show ?thesis
  proof (cases err)
    case None
    with insert_embedding_cases(1,3) [OF ins] INSERT_case_embeddings ins show ?thesis
      by (intro embedding_inserted [of "assign_embedding cols (coerce_embedding r)
                  (embedding_defaults (case_embeddings_id_seq db) now)"])
        (simp_all add: assigned_dimension embedding_defaults_dimension)
  next
    case (Some e)
    with insert_embedding_cases(1,2) [OF ins] INSERT_case_embeddings ins show ?thesis
      by (intro unchanged) simp_all
  qed
next
  case (UPDATE_case_embeddings k cols r)
  obtain err db' where upd: "update_embedding k cols r db = (err, db')"
    by (cases "update_embedding k cols r db")
  note ops = update_embedding_cases(1) [OF upd]
  show ?thesis
  proof (cases err)
    case (Some e)
    with update_embedding_cases(2) [OF upd] ops UPDATE_case_embeddings upd show ?thesis
      by (intro unchanged) simp_all
  next
    case None
    from update_embedding_cases(3) [OF upd None]
    consider "case_embeddings db' = case_embeddings db"
      | OLD where "OLD \<in> set (case_embeddings db)"
          "embedding_type_error cols r = None"
          "embedding_constraint_error (assign_embedding cols (coerce_embedding r) OLD)
             (filter (\<lambda>e. id_emb e \<noteq> Some k) (case_embeddings db)) (case_opinions db) = None"
          "case_embeddings db' =
             map (\<lambda>e. if id_emb e = Some k then assign_embedding cols (coerce_embedding r) OLD
                       else e) (case_embeddings db)"
      by blast
    then show ?thesis
    proof cases
      case 1
      with ops UPDATE_case_embeddings upd show ?thesis by (intro unchanged) simp_all
    next
      case (2 OLD)
      with ops UPDATE_case_embeddings upd show ?thesis
        by (intro embedding_updated [of k "assign_embedding cols (coerce_embedding r) OLD" OLD])
          (simp_all add: assigned_dimension)
    qed
  qed
next
  case (DELETE_case_embeddings k)
  then show ?thesis
    by (intro embedding_deleted [of k]) (simp_all add: delete_embedding_def)
qed

lemma run_invariant:
  assumes step: "\<And>s d. s \<in> set ss \<Longrightarrow> P d \<Longrightarrow> P (snd (exec ts s d))"
  shows "P db \<Longrightarrow> P (run ts ss db)"
  using step
proof (induction ss arbitrary: db)
  case Nil
  then show ?case by simp
next
  case (Cons s ss)
  have "P (snd (exec ts s db))"
    using Cons.prems by simp
  then show ?case
    using Cons.IH Cons.prems(2) by simp
qed

subsection \<open>Running the examples\<close>

lemmas opinion_eval =
  insert_opinion_def update_opinion_def delete_opinion_def opinion_type_error_def
  varchar_fits_def varchar_def int4_fits_def coerce_opinion_def assign_opinion_def
  opinion_defaults_def trg_opinion_search_vector_def trg_columns_def
  update_opinion_search_vector_def words_textsearch_def COALESCE_def
  opinion_constraint_error_def empty_db_def smith_db_def smith_columns_def smith_v_state_def
  index_consistent_def weighted_index_def field_text_def

lemmas embedding_eval =
  insert_embedding_def update_embedding_def delete_embedding_def embedding_type_error_def
  vector_fits_def coerce_embedding_def assign_embedding_def embedding_defaults_def
  embedding_constraint_error_def smith_chunk_def chunk_columns_def dimension_1536_def

lemma smith_insert:
  "insert_opinion words_textsearch 0 smith_columns smith_v_state empty_db = (None, smith_db)"
  by (simp add: opinion_eval)

section \<open>Properties of the opinion store\<close>

subsection \<open>The lexical index\<close>

lemma weighted_index_cong:
  "case_name p = case_name q \<Longrightarrow> summary p = summary q \<Longrightarrow> opinion_text p = opinion_text q
     \<Longrightarrow> weighted_index ts p = weighted_index ts q"
  by (simp add: weighted_index_def)

lemma COALESCE_field_text: "COALESCE v [] = field_text v"
  by (simp add: COALESCE_def field_text_def)

lemma update_opinion_search_vector_consistent:
  "index_consistent ts (update_opinion_search_vector ts p)"
  by (simp add: index_consistent_def weighted_index_def update_opinion_search_vector_def
      COALESCE_field_text)

lemma trg_insert_consistent: "index_consistent ts (trg_opinion_search_vector ts None p)"
  by (simp add: trg_opinion_search_vector_def update_opinion_search_vector_consistent)

lemma trg_update_consistent:
  "cols \<inter> trg_columns \<noteq> {} \<Longrightarrow> index_consistent ts (trg_opinion_search_vector ts (Some cols) p)"
  by (simp add: trg_opinion_search_vector_def update_opinion_search_vector_consistent)

lemma trg_update_skipped:
  "cols \<inter> trg_columns = {} \<Longrightarrow> trg_opinion_search_vector ts (Some cols) p = p"
  by (simp add: trg_opinion_search_vector_def)

lemma untouched_consistent:
  assumes "cols \<inter> trg_columns = {}" and "C_search_vector \<notin> cols"
    and "index_consistent ts OLD"
  shows "index_consistent ts (assign_opinion cols r OLD)"
proof -
  from assms(1) have "C_case_name \<notin> cols" "C_summary \<notin> cols" "C_opinion_text \<notin> cols"
    by (auto simp: trg_columns_def)
  with assms(2,3) show ?thesis
    by (simp add: index_consistent_def weighted_index_def assign_opinion_sel)
qed

lemma insert_opinion_consistent:
  assumes "list_all (index_consistent ts) (case_opinions db)"
  shows "list_all (index_consistent ts) (case_opinions (snd (insert_opinion ts now cols r db)))"
proof -
  obtain err db' where ins: "insert_opinion ts now cols r db = (err, db')"
    by (cases "insert_opinion ts now cols r db")
  show ?thesis
  proof (cases err)
    case None
    with insert_opinion_cases(3) [OF ins] assms show ?thesis
      by (simp add: ins trg_insert_consistent)
  next
    case (Some e)
    with insert_opinion_cases(2) [OF ins] assms show ?thesis
      by (simp add: ins)
  qed
qed

lemma update_opinion_consistent:
  assumes all: "list_all (index_consistent ts) (case_opinions db)"
    and direct: "\<not> (C_search_vector \<in> cols \<and> cols \<inter> trg_columns = {})"
  shows "list_all (index_consistent ts) (case_opinions (snd (update_opinion ts k cols r db)))"
proof -
  obtain err db' where upd: "update_opinion ts k cols r db = (err, db')"
    by (cases "update_opinion ts k cols r db")
  show ?thesis
  proof (cases err)
    case (Some e)
    with update_opinion_cases(2) [OF upd] all show ?thesis
      by (simp add: upd)
  next
    case None
    from update_opinion_cases(3) [OF upd None]
    consider "case_opinions db' = case_opinions db"
      | OLD where "OLD \<in> set (case_opinions db)"
          "case_opinions db' = map (\<lambda>p. if id_op p = Some k then
             trg_opinion_search_vector ts (Some cols)
               (assign_opinion cols (coerce_opinion r) OLD) else p) (case_opinions db)"
      by auto
    then show ?thesis
    proof cases
      case 1
      with all show ?thesis by (simp add: upd)
    next
      case (2 OLD)
      have old: "index_consistent ts OLD"
        using all 2(1) by (simp add: list_all_iff)
      have "index_consistent ts (trg_opinion_search_vector ts (Some cols)
               (assign_opinion cols (coerce_opinion r) OLD))"
      proof (cases "cols \<inter> trg_columns = {}")
        case True
        with direct have "C_search_vector \<notin> cols" by simp
        with True old show ?thesis
          by (simp add: trg_update_skipped untouched_consistent)
      next
        case False
        then show ?thesis by (rule trg_update_consistent)
      qed
      with all show ?thesis
        by (auto simp: upd 2(2) list_all_iff)
    qed
  qed
qed

lemma exec_consistent:
  assumes "list_all (index_consistent ts) (case_opinions db)"
    and "\<not> sets_search_vector_directly s"
  shows "list_all (index_consistent ts) (case_opinions (snd (exec ts s db)))"
proof (cases s)
  case (INSERT_case_opinions now cols r)
  with assms show ?thesis by (simp add: insert_opinion_consistent)
next
  case (UPDATE_case_opinions k cols r)
  with assms show ?thesis by (simp add: update_opinion_consistent)
next
  case (DELETE_case_opinions k)
  with assms show ?thesis by (simp add: delete_opinion_opinions list_all_iff)
next
  case (INSERT_case_embeddings now cols r)
  with assms show ?thesis by (simp add: insert_embedding_opinions)
next
  case (UPDATE_case_embeddings k cols r)
  with assms show ?thesis by (simp add: update_embedding_opinions)
next
  case (DELETE_case_embeddings k)
  with assms show ?thesis by (simp add: delete_embedding_opinions)
qed

text \<open>
  C1. When an opinion row is inserted, and when it is updated by a statement that
  names case_name, summary or opinion_text, the search_vector stored with the row is
  the concatenation of the tsvectors of its case name with weight A, its summary
  with weight B and its opinion text with weight C.
\<close>

theorem search_vector_weighted_concatenation:
  "(insert_opinion ts now cols r db = (None, db') \<longrightarrow>
      (\<exists>NEW. case_opinions db' = case_opinions db @ [NEW]
         \<and> case_name NEW = (if C_case_name \<in> cols then case_name r else None)
         \<and> summary NEW = (if C_summary \<in> cols then summary r else None)
         \<and> opinion_text NEW = (if C_opinion_text \<in> cols then opinion_text r else None)
         \<and> search_vector NEW = Some (weighted_index ts NEW)))
   \<and> (update_opinion ts k ucols u db = (None, db'')
        \<and> (C_case_name \<in> ucols \<or> C_summary \<in> ucols \<or> C_opinion_text \<in> ucols) \<longrightarrow>
      length (case_opinions db'') = length (case_opinions db)
      \<and> (\<forall>i < length (case_opinions db). id_op (case_opinions db ! i) = Some k \<longrightarrow>
           (C_case_name \<in> ucols \<longrightarrow> case_name (case_opinions db'' ! i) = case_name u)
           \<and> (C_summary \<in> ucols \<longrightarrow> summary (case_opinions db'' ! i) = summary u)
           \<and> (C_opinion_text \<in> ucols \<longrightarrow> opinion_text (case_opinions db'' ! i) = opinion_text u)
           \<and> search_vector (case_opinions db'' ! i)
               = Some (weighted_index ts (case_opinions db'' ! i))))"
proof (intro conjI impI)
  assume ins: "insert_opinion ts now cols r db = (None, db')"
  let ?NEW = "trg_opinion_search_vector ts None
     (assign_opinion cols (coerce_opinion r) (opinion_defaults (case_opinions_id_seq db) now))"
  have "case_opinions db' = case_opinions db @ [?NEW]"
    using insert_opinion_cases(3) [OF ins] by simp
  moreover have "index_consistent ts ?NEW"
    by (rule trg_insert_consistent)
  ultimately show "\<exists>NEW. case_opinions db' = case_opinions db @ [NEW]
         \<and> case_name NEW = (if C_case_name \<in> cols then case_name r else None)
         \<and> summary NEW = (if C_summary \<in> cols then summary r else None)
         \<and> opinion_text NEW = (if C_opinion_text \<in> cols then opinion_text r else None)
         \<and> search_vector NEW = Some (weighted_index ts NEW)"
    by (intro exI [of _ ?NEW])
      (simp add: index_consistent_def trg_opinion_search_vector_sel
        assign_opinion_sel coerce_opinion_sel opinion_defaults_sel)
next
  assume "update_opinion ts k ucols u db = (None, db'')
        \<and> (C_case_name \<in> ucols \<or> C_summary \<in> ucols \<or> C_opinion_text \<in> ucols)"
  then have upd: "update_opinion ts k ucols u db = (None, db'')"
    and fired: "ucols \<inter> trg_columns \<noteq> {}"
    by (auto simp: trg_columns_def)
  from update_opinion_cases(3) [OF upd]
  show "length (case_opinions db'') = length (case_opinions db)"
    by auto
  show "\<forall>i < length (case_opinions db). id_op (case_opinions db ! i) = Some k \<longrightarrow>
           (C_case_name \<in> ucols \<longrightarrow> case_name (case_opinions db'' ! i) = case_name u)
           \<and> (C_summary \<in> ucols \<longrightarrow> summary (case_opinions db'' ! i) = summary u)
           \<and> (C_opinion_text \<in> ucols \<longrightarrow> opinion_text (case_opinions db'' ! i) = opinion_text u)
           \<and> search_vector (case_opinions db'' ! i)
               = Some (weighted_index ts (case_opinions db'' ! i))"
  proof (intro allI impI)
    fix i assume i: "i < length (case_opinions db)"
      and k: "id_op (case_opinions db ! i) = Some k"
    from i k have ex: "list_ex (\<lambda>p. id_op p = Some k) (case_opinions db)"
      by (auto simp: list_ex_iff)
    with update_opinion_cases(3) [OF upd] obtain OLD where
      new: "case_opinions db'' = map (\<lambda>p. if id_op p = Some k then
              trg_opinion_search_vector ts (Some ucols)
                (assign_opinion ucols (coerce_opinion u) OLD) else p) (case_opinions db)"
      by auto
    let ?NEW = "trg_opinion_search_vector ts (Some ucols)
                (assign_opinion ucols (coerce_opinion u) OLD)"
    have at: "case_opinions db'' ! i = ?NEW"
      using i k by (simp add: new)
    have "index_consistent ts ?NEW"
      using fired by (rule trg_update_consistent)
    then show "(C_case_name \<in> ucols \<longrightarrow> case_name (case_opinions db'' ! i) = case_name u)
           \<and> (C_summary \<in> ucols \<longrightarrow> summary (case_opinions db'' ! i) = summary u)
           \<and> (C_opinion_text \<in> ucols \<longrightarrow> opinion_text (case_opinions db'' ! i) = opinion_text u)
           \<and> search_vector (case_opinions db'' ! i)
               = Some (weighted_index ts (case_opinions db'' ! i))"
      by (simp add: at index_consistent_def
          trg_opinion_search_vector_sel assign_opinion_sel coerce_opinion_sel)
  qed
qed

theorem search_vector_weighted_concatenation_witness:
  "insert_opinion words_textsearch 0 smith_columns smith_v_state empty_db = (None, smith_db)
   \<and> map search_vector (case_opinions smith_db) =
       [Some [(''Smith'', CHR ''A''), (''v.'', CHR ''A''), (''State'', CHR ''A''),
          (''field'', CHR ''C''), (''sobriety'', CHR ''C''), (''test'', CHR ''C'')]]
   \<and> fst (update_opinion words_textsearch 1 {C_summary}
            (smith_v_state\<lparr>summary := Some ''dwi appeal''\<rparr>) smith_db) = None
   \<and> map search_vector (case_opinions (snd (update_opinion words_textsearch 1 {C_summary}
            (smith_v_state\<lparr>summary := Some ''dwi appeal''\<rparr>) smith_db))) =
       [Some [(''Smith'', CHR ''A''), (''v.'', CHR ''A''), (''State'', CHR ''A''),
          (''dwi'', CHR ''B''), (''appeal'', CHR ''B''),
          (''field'', CHR ''C''), (''sobriety'', CHR ''C''), (''test'', CHR ''C'')]]"
  using search_vector_weighted_concatenation
    [of words_textsearch 0 smith_columns smith_v_state empty_db smith_db
        1 "{C_summary}" "smith_v_state\<lparr>summary := Some ''dwi appeal''\<rparr>"
        "snd (update_opinion words_textsearch 1 {C_summary}
            (smith_v_state\<lparr>summary := Some ''dwi appeal''\<rparr>) smith_db)"]
  by (simp add: opinion_eval)

text \<open>
  C2, as stated, fails: an update that names only search_vector succeeds without the
  trigger running, and leaves the caller's value in a row whose text fields say
  otherwise.
\<close>

theorem direct_search_vector_update_counterexample:
  "list_all (index_consistent words_textsearch) (case_opinions smith_db)
   \<and> fst (update_opinion words_textsearch 1 {C_search_vector}
            (smith_v_state\<lparr>search_vector := Some []\<rparr>) smith_db) = None
   \<and> map search_vector (case_opinions (snd (update_opinion words_textsearch 1 {C_search_vector}
            (smith_v_state\<lparr>search_vector := Some []\<rparr>) smith_db))) = [Some []]
   \<and> \<not> list_all (index_consistent words_textsearch)
         (case_opinions (snd (update_opinion words_textsearch 1 {C_search_vector}
            (smith_v_state\<lparr>search_vector := Some []\<rparr>) smith_db)))"
  by (simp add: opinion_eval)

text \<open>
  C2, amended. Starting from a store whose rows are all consistent, every history
  of inserts, updates and deletes in which no update names search_vector without
  naming case_name, summary or opinion_text leaves every row consistent: the trigger
  recomputes search_vector inside each insert and each update that names one of the
  three columns, whatever value the statement gave for search_vector.
\<close>

theorem lexical_index_kept_consistent:
  fixes ts :: "'v textsearch"
  assumes "list_all (index_consistent ts) (case_opinions db)"
    and "list_all (\<lambda>s. \<not> sets_search_vector_directly s) ss"
  shows "list_all (index_consistent ts) (case_opinions (run ts ss db))"
proof (rule run_invariant [where P = "\<lambda>d :: 'v db. list_all (index_consistent ts) (case_opinions d)"])
  fix s and d :: "'v db"
  assume s: "s \<in> set ss" and d: "list_all (index_consistent ts) (case_opinions d)"
  from s assms(2) have "\<not> sets_search_vector_directly s"
    by (simp add: list_all_iff)
  with d show "list_all (index_consistent ts) (case_opinions (snd (exec ts s d)))"
    by (rule exec_consistent)
next
  show "list_all (index_consistent ts) (case_opinions db)"
    by (rule assms(1))
qed

theorem lexical_index_kept_consistent_witness:
  "list_all (index_consistent words_textsearch) (case_opinions smith_db)
   \<and> list_all (\<lambda>s. \<not> sets_search_vector_directly s)
       [UPDATE_case_opinions 1 {C_summary, C_search_vector}
          (smith_v_state\<lparr>summary := Some ''dwi appeal'', search_vector := Some []\<rparr>)]
   \<and> map search_vector (case_opinions (run words_textsearch
       [UPDATE_case_opinions 1 {C_summary, C_search_vector}
          (smith_v_state\<lparr>summary := Some ''dwi appeal'', search_vector := Some []\<rparr>)]
       smith_db)) =
       [Some [(''Smith'', CHR ''A''), (''v.'', CHR ''A''), (''State'', CHR ''A''),
          (''dwi'', CHR ''B''), (''appeal'', CHR ''B''),
          (''field'', CHR ''C''), (''sobriety'', CHR ''C''), (''test'', CHR ''C'')]]
   \<and> list_all (index_consistent words_textsearch) (case_opinions (run words_textsearch
       [UPDATE_case_opinions 1 {C_summary, C_search_vector}
          (smith_v_state\<lparr>summary := Some ''dwi appeal'', search_vector := Some []\<rparr>)]
       smith_db))"
  using lexical_index_kept_consistent [of words_textsearch smith_db
       "[UPDATE_case_opinions 1 {C_summary, C_search_vector}
          (smith_v_state\<lparr>summary := Some ''dwi appeal'', search_vector := Some []\<rparr>)]"]
  by (simp add: opinion_eval)



subsection \<open>Rows that are never null\<close>

lemma exec_names_present:
  fixes db :: "'v db"
  assumes "list_all names_present (case_opinions db)"
  shows "list_all names_present (case_opinions (snd (exec ts s db)))"
proof (cases ts s db rule: exec_cases)
  case (opinion_inserted NEW)
  with assms show ?thesis
    by (simp add: opinion_constraint_error_None names_present_def)
next
  case (opinion_updated k NEW)
  with assms show ?thesis
    by (auto simp: opinion_constraint_error_None names_present_def list_all_iff)
next
  case (opinion_deleted k)
  with assms show ?thesis by (simp add: list_all_iff)
qed (use assms in simp_all)

lemma insert_opinion_missing:
  assumes "C_case_name \<notin> cols \<or> case_name r = None \<or> C_court \<notin> cols \<or> court r = None"
  shows "fst (insert_opinion ts now cols r db) \<noteq> None"
proof
  assume none: "fst (insert_opinion ts now cols r db) = None"
  then obtain db' where ins: "insert_opinion ts now cols r db = (None, db')"
    by (cases "insert_opinion ts now cols r db") simp
  from insert_opinion_cases(3) [OF ins] assms show False
    by (auto simp: opinion_constraint_error_None trg_opinion_search_vector_sel
        assign_opinion_sel coerce_opinion_sel opinion_defaults_sel varchar_def
        split: if_splits)
qed

text \<open>
  C6. An insert whose row has no case name or no court is refused, and leaves both
  tables as they were; in every store that a history of statements builds from the
  empty one, every opinion row has a case name and a court.
\<close>

theorem case_name_and_court_present:
  fixes ts :: "'v textsearch"
  shows "(C_case_name \<notin> cols \<or> case_name r = None \<or> C_court \<notin> cols \<or> court r = None \<longrightarrow>
      fst (insert_opinion ts now cols r db) \<noteq> None
      \<and> case_opinions (snd (insert_opinion ts now cols r db)) = case_opinions db
      \<and> case_embeddings (snd (insert_opinion ts now cols r db)) = case_embeddings db)
   \<and> list_all (\<lambda>p. case_name p \<noteq> None \<and> court p \<noteq> None)
       (case_opinions (run ts ss empty_db))"
proof (intro conjI impI)
  assume missing: "C_case_name \<notin> cols \<or> case_name r = None \<or> C_court \<notin> cols \<or> court r = None"
  obtain err db' where ins: "insert_opinion ts now cols r db = (err, db')"
    by (cases "insert_opinion ts now cols r db")
  from missing have err: "fst (insert_opinion ts now cols r db) \<noteq> None"
    by (rule insert_opinion_missing)
  then show "fst (insert_opinion ts now cols r db) \<noteq> None" .
  from err insert_opinion_cases(2) [OF ins]
  show "case_opinions (snd (insert_opinion ts now cols r db)) = case_opinions db"
    by (simp add: ins)
  from insert_opinion_cases(1) [OF ins]
  show "case_embeddings (snd (insert_opinion ts now cols r db)) = case_embeddings db"
    by (simp add: ins)
next
  have "list_all names_present (case_opinions (run ts ss (empty_db :: 'v db)))"
    by (rule run_invariant [where P = "\<lambda>d :: 'v db. list_all names_present (case_opinions d)"])
      (simp_all add: exec_names_present empty_db_def)
  then show "list_all (\<lambda>p. case_name p \<noteq> None \<and> court p \<noteq> None)
       (case_opinions (run ts ss empty_db))"
    by (simp add: names_present_def [abs_def])
qed

theorem case_name_and_court_present_witness:
  "case_name (smith_v_state\<lparr>case_name := None\<rparr>) = None
   \<and> insert_opinion words_textsearch 0 smith_columns (smith_v_state\<lparr>case_name := None\<rparr>)
        empty_db
      = (Some (not_null_violation ''case_name''), empty_db\<lparr>case_opinions_id_seq := 2\<rparr>)
   \<and> map case_name (case_opinions (run words_textsearch
        [INSERT_case_opinions 0 smith_columns (smith_v_state\<lparr>case_name := None\<rparr>),
         INSERT_case_opinions 0 smith_columns smith_v_state,
         UPDATE_case_opinions 2 {C_court} (smith_v_state\<lparr>court := None\<rparr>)] empty_db))
      = [Some ''Smith v. State'']
   \<and> map court (case_opinions (run words_textsearch
        [INSERT_case_opinions 0 smith_columns (smith_v_state\<lparr>case_name := None\<rparr>),
         INSERT_case_opinions 0 smith_columns smith_v_state,
         UPDATE_case_opinions 2 {C_court} (smith_v_state\<lparr>court := None\<rparr>)] empty_db))
      = [Some ''texcrimapp'']"
  using case_name_and_court_present [of smith_columns "smith_v_state\<lparr>case_name := None\<rparr>"
      words_textsearch 0 empty_db
      "[INSERT_case_opinions 0 smith_columns (smith_v_state\<lparr>case_name := None\<rparr>),
         INSERT_case_opinions 0 smith_columns smith_v_state,
         UPDATE_case_opinions 2 {C_court} (smith_v_state\<lparr>court := None\<rparr>)]"]
  by (simp add: opinion_eval)

subsection \<open>Keys\<close>

lemma exec_ids_distinct:
  fixes db :: "'v db"
  assumes "distinct (map id_op (case_opinions db))"
  shows "distinct (map id_op (case_opinions (snd (exec ts s db))))"
proof (cases ts s db rule: exec_cases)
  case (opinion_inserted NEW)
  with assms show ?thesis
    by (auto simp: opinion_constraint_error_None list_ex_iff)
next
  case (opinion_updated k NEW)
  let ?g = "\<lambda>i. if i = Some k then id_op NEW else i"
  have fresh: "\<forall>p \<in> set (case_opinions db). id_op p \<noteq> Some k \<longrightarrow> id_op p \<noteq> id_op NEW"
    using opinion_updated(3) by (auto simp: opinion_constraint_error_None list_ex_iff)
  have eq: "map id_op (case_opinions (snd (exec ts s db))) = map ?g (map id_op (case_opinions db))"
    by (simp add: opinion_updated(1))
  have "inj_on ?g (set (map id_op (case_opinions db)))"
    using fresh by (auto simp: inj_on_def)
  with assms have "distinct (map ?g (map id_op (case_opinions db)))"
    by (subst distinct_map) (rule conjI)
  with eq show ?thesis
    by (simp only:)
next
  case (opinion_deleted k)
  with assms show ?thesis by (simp add: distinct_map_filter)
qed (use assms in simp_all)

lemma source_ids_unique_step:
  assumes old: "source_ids_unique ps"
    and sub: "set qs \<subseteq> insert NEW (set ps \<inter> {p. P p})"
    and fresh: "\<forall>p \<in> set ps. P p \<longrightarrow> source_id NEW \<noteq> None \<longrightarrow> source_id p \<noteq> source_id NEW"
  shows "source_ids_unique qs"
  unfolding source_ids_unique_def
proof (intro ballI impI)
  fix p q
  assume p: "p \<in> set qs" and q: "q \<in> set qs"
    and eq: "source_id p \<noteq> None \<and> source_id p = source_id q"
  from p sub have p': "p = NEW \<or> (p \<in> set ps \<and> P p)" by auto
  from q sub have q': "q = NEW \<or> (q \<in> set ps \<and> P q)" by auto
  show "p = q"
  proof (cases "p = NEW")
    case True
    show ?thesis
    proof (cases "q = NEW")
      case True
      with \<open>p = NEW\<close> show ?thesis by simp
    next
      case False
      with q' have "q \<in> set ps" "P q" by simp_all
      with fresh eq \<open>p = NEW\<close> show ?thesis by auto
    qed
  next
    case False
    with p' have pp: "p \<in> set ps" "P p" by simp_all
    show ?thesis
    proof (cases "q = NEW")
      case True
      with fresh eq pp show ?thesis by auto
    next
      case False
      with q' have "q \<in> set ps" by simp
      with old pp(1) eq show ?thesis unfolding source_ids_unique_def by blast
    qed
  qed
qed

lemma exec_source_ids_unique:
  fixes db :: "'v db"
  assumes "source_ids_unique (case_opinions db)"
  shows "source_ids_unique (case_opinions (snd (exec ts s db)))"
proof (cases ts s db rule: exec_cases)
  case (opinion_inserted NEW)
  have fresh: "\<forall>p \<in> set (case_opinions db). True \<longrightarrow> source_id NEW \<noteq> None
          \<longrightarrow> source_id p \<noteq> source_id NEW"
    using opinion_inserted(3) by (auto simp: opinion_constraint_error_None list_ex_iff)
  show ?thesis
    by (rule source_ids_unique_step [OF assms _ fresh]) (auto simp: opinion_inserted(1))
next
  case (opinion_updated k NEW)
  have fresh: "\<forall>p \<in> set (case_opinions db). id_op p \<noteq> Some k \<longrightarrow> source_id NEW \<noteq> None
          \<longrightarrow> source_id p \<noteq> source_id NEW"
    using opinion_updated(3) by (auto simp: opinion_constraint_error_None list_ex_iff)
  show ?thesis
    by (rule source_ids_unique_step [OF assms _ fresh]) (auto simp: opinion_updated(1))
next
  case (opinion_deleted k)
  with assms show ?thesis unfolding source_ids_unique_def by auto
qed (use assms in simp_all)

lemma run_keys:
  fixes ts :: "'v textsearch"
  shows "distinct (map id_op (case_opinions (run ts ss empty_db)))"
    and "source_ids_unique (case_opinions (run ts ss empty_db))"
proof -
  show "distinct (map id_op (case_opinions (run ts ss (empty_db :: 'v db))))"
    by (rule run_invariant [where P = "\<lambda>d :: 'v db. distinct (map id_op (case_opinions d))"])
      (simp_all add: exec_ids_distinct empty_db_def)
  show "source_ids_unique (case_opinions (run ts ss (empty_db :: 'v db)))"
  proof (rule run_invariant [where P = "\<lambda>d :: 'v db. source_ids_unique (case_opinions d)"])
    show "source_ids_unique (case_opinions (empty_db :: 'v db))"
      by (simp add: empty_db_def source_ids_unique_def)
  qed (rule exec_source_ids_unique)
qed

lemma same_source_id_same_row:
  assumes "source_ids_unique ps" and "distinct (map id_op ps)"
    and "i < length ps" and "j < length ps"
    and "source_id (ps ! i) \<noteq> None" and "source_id (ps ! i) = source_id (ps ! j)"
  shows "i = j"
proof -
  have "ps ! i = ps ! j"
    using assms(1,3-6) unfolding source_ids_unique_def by (meson nth_mem)
  then have "map id_op ps ! i = map id_op ps ! j"
    using assms(3,4) by simp
  with assms(2-4) nth_eq_iff_index_eq [of "map id_op ps" i j] show ?thesis
    by simp
qed

lemma duplicate_source_id_refused:
  assumes "p \<in> set (case_opinions db)" and "source_id p = Some sid" and "length sid \<le> 200"
    and "C_source_id \<in> cols" and "source_id r = Some sid"
  shows "fst (insert_opinion ts now cols r db) \<noteq> None"
proof
  assume "fst (insert_opinion ts now cols r db) = None"
  then obtain db' where ins: "insert_opinion ts now cols r db = (None, db')"
    by (cases "insert_opinion ts now cols r db") simp
  let ?NEW = "trg_opinion_search_vector ts None
     (assign_opinion cols (coerce_opinion r) (opinion_defaults (case_opinions_id_seq db) now))"
  have sid: "source_id ?NEW = Some sid"
    using assms(3-5)
    by (simp add: trg_opinion_search_vector_sel assign_opinion_sel coerce_opinion_sel varchar_def)
  from insert_opinion_cases(3) [OF ins]
  have "opinion_constraint_error ?NEW (case_opinions db) = None"
    by simp
  then have "\<not> list_ex (\<lambda>q. source_id q = Some sid) (case_opinions db)"
    by (simp only: opinion_constraint_error_None sid) simp
  with assms(1,2) show False
    by (auto simp: list_ex_iff)
qed

text \<open>
  C9. The source-native id is unique across all sources: in every store that a
  history of statements builds from the empty one, two rows with the same source_id
  present are one row; an insert whose source_id a stored row already has is
  refused, whatever source it names, and both tables stay as they were.
\<close>

theorem source_id_globally_unique:
  fixes ts :: "'v textsearch"
  shows "(\<forall>i < length (case_opinions (run ts ss empty_db)).
        \<forall>j < length (case_opinions (run ts ss empty_db)).
          source_id (case_opinions (run ts ss empty_db) ! i) \<noteq> None
          \<and> source_id (case_opinions (run ts ss empty_db) ! i)
              = source_id (case_opinions (run ts ss empty_db) ! j) \<longrightarrow> i = j)
   \<and> (p \<in> set (case_opinions db) \<and> source_id p = Some sid \<and> length sid \<le> 200
        \<and> C_source_id \<in> cols \<and> source_id r = Some sid \<longrightarrow>
      fst (insert_opinion ts now cols r db) \<noteq> None
      \<and> case_opinions (snd (insert_opinion ts now cols r db)) = case_opinions db
      \<and> case_embeddings (snd (insert_opinion ts now cols r db)) = case_embeddings db)"
proof -
  let ?ps = "case_opinions (run ts ss (empty_db :: 'v db))"
  have unique: "\<forall>i < length ?ps. \<forall>j < length ?ps.
      source_id (?ps ! i) \<noteq> None \<and> source_id (?ps ! i) = source_id (?ps ! j) \<longrightarrow> i = j"
    using same_source_id_same_row [OF run_keys(2) [of ts ss] run_keys(1) [of ts ss]]
    by blast
  have refused: "fst (insert_opinion ts now cols r db) \<noteq> None
      \<and> case_opinions (snd (insert_opinion ts now cols r db)) = case_opinions db
      \<and> case_embeddings (snd (insert_opinion ts now cols r db)) = case_embeddings db"
    if "p \<in> set (case_opinions db) \<and> source_id p = Some sid \<and> length sid \<le> 200
        \<and> C_source_id \<in> cols \<and> source_id r = Some sid"
  proof -
    from that have "fst (insert_opinion ts now cols r db) \<noteq> None"
      using duplicate_source_id_refused [of p db sid cols r] by blast
    then show ?thesis
      using insert_opinion_refused_unchanged [of ts now cols r db] by blast
  qed
  from unique refused show ?thesis
    by blast
qed

theorem source_id_globally_unique_witness:
  "map source_id (case_opinions (run words_textsearch
      [INSERT_case_opinions 0 smith_columns smith_v_state,
       INSERT_case_opinions 1 smith_columns (smith_v_state\<lparr>source_id := Some ''124''\<rparr>)]
      empty_db)) = [Some ''123'', Some ''124'']
   \<and> hd (case_opinions smith_db) \<in> set (case_opinions smith_db)
   \<and> source_id (hd (case_opinions smith_db)) = Some ''123''
   \<and> length ''123'' \<le> 200
   \<and> C_source_id \<in> smith_columns
   \<and> source_id (smith_v_state\<lparr>source := Some ''cap''\<rparr>) = Some ''123''
   \<and> fst (insert_opinion words_textsearch 1 smith_columns
           (smith_v_state\<lparr>source := Some ''cap''\<rparr>) smith_db)
       = Some (unique_violation ''case_opinions_source_id_key'')
   \<and> case_opinions (snd (insert_opinion words_textsearch 1 smith_columns
           (smith_v_state\<lparr>source := Some ''cap''\<rparr>) smith_db)) = case_opinions smith_db"
  using source_id_globally_unique [of words_textsearch
      "[INSERT_case_opinions 0 smith_columns smith_v_state,
       INSERT_case_opinions 1 smith_columns (smith_v_state\<lparr>source_id := Some ''124''\<rparr>)]"
      "hd (case_opinions smith_db)" smith_db "''123''" smith_columns
      "smith_v_state\<lparr>source := Some ''cap''\<rparr>" 1]
  by (simp add: opinion_eval)





subsection \<open>Embeddings\<close>

lemma exec_references_resolve:
  fixes db :: "'v db"
  assumes "references_resolve db"
  shows "references_resolve (snd (exec ts s db))"
proof -
  from assms have old: "\<forall>e \<in> set (case_embeddings db).
      \<exists>p \<in> set (case_opinions db). id_op p = opinion_id e"
    by (simp add: references_resolve_def list_all_iff list_ex_iff)
  have "\<forall>e \<in> set (case_embeddings (snd (exec ts s db))).
      \<exists>p \<in> set (case_opinions (snd (exec ts s db))). id_op p = opinion_id e"
  proof (cases ts s db rule: exec_cases)
    case unchanged
    with old show ?thesis by simp
  next
    case (opinion_inserted NEW)
    with old show ?thesis by auto
  next
    case (opinion_updated k NEW)
    show ?thesis
    proof
      fix e assume e: "e \<in> set (case_embeddings (snd (exec ts s db)))"
      with opinion_updated(2) old obtain p where
        p: "p \<in> set (case_opinions db)" "id_op p = opinion_id e"
        by auto
      show "\<exists>q \<in> set (case_opinions (snd (exec ts s db))). id_op q = opinion_id e"
      proof (cases "id_op p = Some k")
        case True
        with p(2) e opinion_updated(2) have "list_ex (\<lambda>e. opinion_id e = Some k) (case_embeddings db)"
          by (auto simp: list_ex_iff)
        with opinion_updated(4) have "id_op NEW = Some k" by blast
        moreover from p(1) True have "NEW \<in> set (case_opinions (snd (exec ts s db)))"
          by (auto simp: opinion_updated(1) image_iff)
        ultimately show ?thesis
          using True p(2) by auto
      next
        case False
        with p(1) have "p \<in> set (case_opinions (snd (exec ts s db)))"
          by (auto simp: opinion_updated(1) image_iff)
        with p(2) show ?thesis by blast
      qed
    qed
  next
    case (opinion_deleted k)
    show ?thesis
    proof
      fix e assume "e \<in> set (case_embeddings (snd (exec ts s db)))"
      with opinion_deleted(2) have e: "e \<in> set (case_embeddings db)" "opinion_id e \<noteq> Some k"
        by simp_all
      with old obtain p where "p \<in> set (case_opinions db)" "id_op p = opinion_id e"
        by auto
      with e(2) opinion_deleted(1)
      show "\<exists>q \<in> set (case_opinions (snd (exec ts s db))). id_op q = opinion_id e"
        by auto
    qed
  next
    case (embedding_inserted NEW)
    with old show ?thesis
      by (auto simp: embedding_constraint_error_None list_ex_iff)
  next
    case (embedding_updated k OLD NEW)
    with old show ?thesis
      by (auto simp: embedding_constraint_error_None list_ex_iff)
  next
    case (embedding_deleted k)
    with old show ?thesis by auto
  qed
  then show ?thesis
    by (simp add: references_resolve_def list_all_iff list_ex_iff)
qed

lemma run_references_resolve:
  fixes ts :: "'v textsearch"
  shows "references_resolve (run ts ss empty_db)"
proof (rule run_invariant [where P = "references_resolve :: 'v db \<Rightarrow> bool"])
  show "references_resolve (empty_db :: 'v db)"
    by (simp add: references_resolve_def empty_db_def)
qed (rule exec_references_resolve)

lemma delete_opinion_cascades:
  assumes "references_resolve db"
  shows "case_embeddings (snd (delete_opinion k db))
           = filter (\<lambda>e. opinion_id e \<noteq> Some k) (case_embeddings db)"
proof (cases "list_ex (\<lambda>p. id_op p = Some k) (case_opinions db)")
  case True
  then show ?thesis by (simp add: delete_opinion_cases)
next
  case False
  with assms have "\<forall>e \<in> set (case_embeddings db). opinion_id e \<noteq> Some k"
    by (auto simp: references_resolve_def list_all_iff list_ex_iff)
  then have "filter (\<lambda>e. opinion_id e \<noteq> Some k) (case_embeddings db) = case_embeddings db"
    by (simp add: filter_id_conv)
  with False show ?thesis by (simp add: delete_opinion_cases)
qed

text \<open>
  C4. In every store that a history of statements builds from the empty one,
  deleting the opinion with id k succeeds and removes exactly the embedding rows
  whose opinion_id is k: afterwards no embedding row references k, and no opinion
  row has id k.
\<close>

theorem delete_cascades_to_embeddings:
  fixes ts :: "'v textsearch"
  shows "fst (delete_opinion k (run ts ss empty_db)) = None
   \<and> case_embeddings (snd (delete_opinion k (run ts ss empty_db)))
       = filter (\<lambda>e. opinion_id e \<noteq> Some k) (case_embeddings (run ts ss empty_db))
   \<and> filter (\<lambda>e. opinion_id e = Some k)
        (case_embeddings (snd (delete_opinion k (run ts ss empty_db)))) = []
   \<and> filter (\<lambda>p. id_op p = Some k)
        (case_opinions (snd (delete_opinion k (run ts ss empty_db)))) = []"
proof -
  have "case_embeddings (snd (delete_opinion k (run ts ss empty_db)))
       = filter (\<lambda>e. opinion_id e \<noteq> Some k) (case_embeddings (run ts ss (empty_db :: 'v db)))"
    using run_references_resolve by (rule delete_opinion_cascades)
  then show ?thesis
    by (simp add: delete_opinion_cases(1) delete_opinion_opinions filter_empty_conv)
qed

theorem delete_cascades_to_embeddings_witness:
  "map opinion_id (case_embeddings (run words_textsearch
      [INSERT_case_opinions 0 smith_columns smith_v_state,
       INSERT_case_opinions 1 smith_columns (smith_v_state\<lparr>source_id := Some ''124''\<rparr>),
       INSERT_case_embeddings 2 chunk_columns smith_chunk,
       INSERT_case_embeddings 3 chunk_columns (smith_chunk\<lparr>opinion_id := Some 2\<rparr>),
       INSERT_case_embeddings 4 chunk_columns (smith_chunk\<lparr>chunk_index := Some 1\<rparr>)]
      empty_db)) = [Some 1, Some 2, Some 1]
   \<and> map opinion_id (case_embeddings (snd (delete_opinion 1 (run words_textsearch
      [INSERT_case_opinions 0 smith_columns smith_v_state,
       INSERT_case_opinions 1 smith_columns (smith_v_state\<lparr>source_id := Some ''124''\<rparr>),
       INSERT_case_embeddings 2 chunk_columns smith_chunk,
       INSERT_case_embeddings 3 chunk_columns (smith_chunk\<lparr>opinion_id := Some 2\<rparr>),
       INSERT_case_embeddings 4 chunk_columns (smith_chunk\<lparr>chunk_index := Some 1\<rparr>)]
      empty_db)))) = [Some 2]
   \<and> map id_op (case_opinions (snd (delete_opinion 1 (run words_textsearch
      [INSERT_case_opinions 0 smith_columns smith_v_state,
       INSERT_case_opinions 1 smith_columns (smith_v_state\<lparr>source_id := Some ''124''\<rparr>),
       INSERT_case_embeddings 2 chunk_columns smith_chunk,
       INSERT_case_embeddings 3 chunk_columns (smith_chunk\<lparr>opinion_id := Some 2\<rparr>),
       INSERT_case_embeddings 4 chunk_columns (smith_chunk\<lparr>chunk_index := Some 1\<rparr>)]
      empty_db)))) = [Some 2]"
  using delete_cascades_to_embeddings [of 1 words_textsearch
      "[INSERT_case_opinions 0 smith_columns smith_v_state,
       INSERT_case_opinions 1 smith_columns (smith_v_state\<lparr>source_id := Some ''124''\<rparr>),
       INSERT_case_embeddings 2 chunk_columns smith_chunk,
       INSERT_case_embeddings 3 chunk_columns (smith_chunk\<lparr>opinion_id := Some 2\<rparr>),
       INSERT_case_embeddings 4 chunk_columns (smith_chunk\<lparr>chunk_index := Some 1\<rparr>)]"]
  by (simp add: opinion_eval embedding_eval)

lemma exec_dimension:
  fixes db :: "'v db"
  assumes "list_all dimension_1536 (case_embeddings db)"
  shows "list_all dimension_1536 (case_embeddings (snd (exec ts s db)))"
proof (cases ts s db rule: exec_cases)
  case (opinion_deleted k)
  with assms show ?thesis by (simp add: list_all_iff)
next
  case (embedding_inserted NEW)
  with assms show ?thesis by simp
next
  case (embedding_updated k OLD NEW)
  with assms have "dimension_1536 NEW" by (simp add: list_all_iff)
  with assms show ?thesis
    by (auto simp: embedding_updated(2) list_all_iff)
next
  case (embedding_deleted k)
  with assms show ?thesis by (simp add: list_all_iff)
qed (use assms in simp_all)

lemma run_dimension:
  fixes ts :: "'v textsearch"
  shows "list_all dimension_1536 (case_embeddings (run ts ss empty_db))"
proof (rule run_invariant [where P = "\<lambda>d :: 'v db. list_all dimension_1536 (case_embeddings d)"])
  show "list_all dimension_1536 (case_embeddings (empty_db :: 'v db))"
    by (simp add: empty_db_def)
qed (rule exec_dimension)

lemma wrong_dimension_refused:
  assumes "E_embedding \<in> cols" and "embedding r = Some v" and "length v \<noteq> 1536"
  shows "fst (insert_embedding now cols r db) \<noteq> None
     \<and> case_embeddings (snd (insert_embedding now cols r db)) = case_embeddings db"
proof -
  from assms have "embedding_type_error cols r \<noteq> None"
    by (simp add: embedding_type_error_def vector_fits_def)
  then show ?thesis
    by (auto simp: insert_embedding_def)
qed

text \<open>
  C7. In every store that a history of statements builds from the empty one, for
  every model identifier, every embedding vector stored under that model has 1536
  elements, the dimension the column fixes for all models; an insert that gives a
  vector of another length is refused and stores nothing.
\<close>

theorem embedding_dimension_fixed:
  fixes ts :: "'v textsearch"
  shows "(\<forall>m. list_all (\<lambda>e. case embedding e of None \<Rightarrow> True | Some v \<Rightarrow> length v = 1536)
            (filter (\<lambda>e. model e = Some m) (case_embeddings (run ts ss empty_db))))
   \<and> (E_embedding \<in> cols \<and> embedding r = Some v \<and> length v \<noteq> 1536 \<longrightarrow>
        fst (insert_embedding now cols r db) \<noteq> None
        \<and> case_embeddings (snd (insert_embedding now cols r db)) = case_embeddings db)"
proof -
  have "list_all dimension_1536 (case_embeddings (run ts ss (empty_db :: 'v db)))"
    by (rule run_dimension)
  then have "\<forall>m. list_all (\<lambda>e. case embedding e of None \<Rightarrow> True | Some v \<Rightarrow> length v = 1536)
            (filter (\<lambda>e. model e = Some m) (case_embeddings (run ts ss (empty_db :: 'v db))))"
    by (simp add: list_all_iff dimension_1536_def)
  with wrong_dimension_refused [of cols r v now db] show ?thesis
    by blast
qed

theorem embedding_dimension_fixed_witness:
  "map model (case_embeddings (run words_textsearch
      [INSERT_case_opinions 0 smith_columns smith_v_state,
       INSERT_case_embeddings 2 chunk_columns smith_chunk,
       INSERT_case_embeddings 3 chunk_columns
         (smith_chunk\<lparr>model := Some ''text-embedding-3-large'',
            embedding := Some (replicate 3072 0)\<rparr>)]
      empty_db)) = [Some ''text-embedding-3-small'']
   \<and> map (map_option length \<circ> embedding) (case_embeddings (run words_textsearch
      [INSERT_case_opinions 0 smith_columns smith_v_state,
       INSERT_case_embeddings 2 chunk_columns smith_chunk,
       INSERT_case_embeddings 3 chunk_columns
         (smith_chunk\<lparr>model := Some ''text-embedding-3-large'',
            embedding := Some (replicate 3072 0)\<rparr>)]
      empty_db)) = [Some 1536]
   \<and> E_embedding \<in> chunk_columns
   \<and> length (replicate 3072 (0 :: real)) \<noteq> 1536
   \<and> fst (insert_embedding 3 chunk_columns
         (smith_chunk\<lparr>model := Some ''text-embedding-3-large'',
            embedding := Some (replicate 3072 0)\<rparr>) smith_db)
       = Some (data_exception ''embedding'')"
  using embedding_dimension_fixed [of words_textsearch
      "[INSERT_case_opinions 0 smith_columns smith_v_state,
       INSERT_case_embeddings 2 chunk_columns smith_chunk,
       INSERT_case_embeddings 3 chunk_columns
         (smith_chunk\<lparr>model := Some ''text-embedding-3-large'',
            embedding := Some (replicate 3072 0)\<rparr>)]"
      chunk_columns
      "smith_chunk\<lparr>model := Some ''text-embedding-3-large'',
            embedding := Some (replicate 3072 0)\<rparr>" "replicate 3072 0" 3 smith_db]
  by (simp add: opinion_eval embedding_eval)

text \<open>
  C3: the code at the failing input. Two inserts of an embedding of opinion 1 under
  the same model, both with chunk_index NULL, both succeed: the table then holds
  two rows with the same key. With chunk_index 0 the second insert is refused.
\<close>

theorem null_chunk_index_duplicates:
  "map id_emb (case_embeddings (run words_textsearch
      [INSERT_case_opinions 0 smith_columns smith_v_state,
       INSERT_case_embeddings 2 chunk_columns (smith_chunk\<lparr>chunk_index := None\<rparr>),
       INSERT_case_embeddings 3 chunk_columns (smith_chunk\<lparr>chunk_index := None\<rparr>)]
      empty_db)) = [Some 1, Some 2]
   \<and> map opinion_id (case_embeddings (run words_textsearch
      [INSERT_case_opinions 0 smith_columns smith_v_state,
       INSERT_case_embeddings 2 chunk_columns (smith_chunk\<lparr>chunk_index := None\<rparr>),
       INSERT_case_embeddings 3 chunk_columns (smith_chunk\<lparr>chunk_index := None\<rparr>)]
      empty_db)) = [Some 1, Some 1]
   \<and> map model (case_embeddings (run words_textsearch
      [INSERT_case_opinions 0 smith_columns smith_v_state,
       INSERT_case_embeddings 2 chunk_columns (smith_chunk\<lparr>chunk_index := None\<rparr>),
       INSERT_case_embeddings 3 chunk_columns (smith_chunk\<lparr>chunk_index := None\<rparr>)]
      empty_db)) = [Some ''text-embedding-3-small'', Some ''text-embedding-3-small'']
   \<and> map chunk_index (case_embeddings (run words_textsearch
      [INSERT_case_opinions 0 smith_columns smith_v_state,
       INSERT_case_embeddings 2 chunk_columns (smith_chunk\<lparr>chunk_index := None\<rparr>),
       INSERT_case_embeddings 3 chunk_columns (smith_chunk\<lparr>chunk_index := None\<rparr>)]
      empty_db)) = [None, None]
   \<and> fst (insert_embedding 3 chunk_columns smith_chunk
        (run words_textsearch
          [INSERT_case_opinions 0 smith_columns smith_v_state,
           INSERT_case_embeddings 2 chunk_columns smith_chunk] empty_db))
       = Some (unique_violation ''case_embeddings_opinion_id_model_chunk_index_key'')"
  by (simp add: opinion_eval embedding_eval)

section \<open>Properties of the chat widget\<close>

text \<open>
  C10. sendMessage is a guarded no-op: when the trimmed input is empty, when there
  is no session id (null, or the empty string, which JavaScript also takes as
  absent), or when a request is in flight, it issues no request and leaves the whole
  state, so the message list and the input, as it was. Otherwise it appends exactly
  one user message, holding the trimmed text, and clears the input, and that is the
  state in which the request is issued.
\<close>

theorem sendMessage_guarded:
  "(trim (input st) = [] \<or> falsy (sessionId st) \<or> isLoading st \<longrightarrow>
      sendMessage uuid now st = (st, None))
   \<and> (\<not> (trim (input st) = [] \<or> falsy (sessionId st) \<or> isLoading st) \<longrightarrow>
      (\<exists>st' sid. sendMessage uuid now st = (st', Some (POST_message sid (trim (input st))))
         \<and> sessionId st = Some sid
         \<and> messages st' = messages st @
             [\<lparr>msg_id = uuid, msg_role = user, content = trim (input st), timestamp = now\<rparr>]
         \<and> input st' = []
         \<and> isLoading st'))"
  by (auto simp: sendMessage_def addMessage_def Let_def falsy_def split: option.splits)

theorem sendMessage_guarded_witness:
  "isLoading (draft\<lparr>isLoading := True\<rparr>)
   \<and> sendMessage (js ''u2'') 6 (draft\<lparr>isLoading := True\<rparr>) = (draft\<lparr>isLoading := True\<rparr>, None)
   \<and> \<not> (trim (input draft) = [] \<or> falsy (sessionId draft) \<or> isLoading draft)
   \<and> snd (sendMessage (js ''u2'') 6 draft) = Some (POST_message (js ''s1'') (js ''hi''))
   \<and> map content (messages (fst (sendMessage (js ''u2'') 6 draft))) = [js ''Hello'', js ''hi'']
   \<and> input (fst (sendMessage (js ''u2'') 6 draft)) = []"
  using sendMessage_guarded [of "draft\<lparr>isLoading := True\<rparr>" "js ''u2''" 6]
    sendMessage_guarded [of draft "js ''u2''" 6]
  by (simp add: draft_def sendMessage_def addMessage_def trim_def js_def js_whitespace_def Let_def
      falsy_def)


end
